theory Spec2Isabelle
  imports Complex_Main "HOL-Library.AList"
begin

section \<open>Python values used by the data pipeline\<close>

text \<open>
  The development embeds three files of the image-captioning repository:
  \<^verbatim>\<open>dataset/flickr_dataset.py\<close> (Vocabulary, FlickrConvRNN, BatchCollateFn),
  \<^verbatim>\<open>utils/utils.py\<close> (get_vocabulary) and \<^verbatim>\<open>utils/callbacks.py\<close> (EarlyStopping).

  Exceptions are values of the type \<open>error\<close>, named after the Python exception class that
  is raised; a function that can raise returns \<open>error + 'a\<close> with \<open>Inl\<close> for the exception.
\<close>

datatype error =
  KeyError | IndexError | FileNotFoundError | AttributeError | ValueError | RuntimeError

subsection \<open>Strings\<close>

text \<open>
  A Python \<^verbatim>\<open>str\<close> is a sequence of code points. A \<open>char\<close> of HOL has eight bits, so a
  \<open>string\<close> stands here for a Python string whose code points are below 256 (ASCII and
  the Latin-1 supplement), one \<open>char\<close> per code point. The character classes below are
  those of Python 3 on that range.
\<close>

definition code_point :: "char \<Rightarrow> nat" where
  "code_point c = of_char c"

text \<open>\<^verbatim>\<open>str.isspace\<close> on one character: TAB..CR, FS..US, SPACE, NEL and NBSP.\<close>

definition isspace :: "char \<Rightarrow> bool" where
  "isspace c = (let n = code_point c in
     (9 \<le> n \<and> n \<le> 13) \<or> (28 \<le> n \<and> n \<le> 32) \<or> n = 133 \<or> n = 160)"

text \<open>
  \<^verbatim>\<open>str.isalnum\<close> on one character (alphabetic, decimal, digit or numeric): the ASCII
  digits and letters, the ordinal indicators, superscript digits, micro sign and vulgar
  fractions, and the Latin-1 letters (all of 192..255 but the signs 215 and 247).
\<close>

definition char_isalnum :: "char \<Rightarrow> bool" where
  "char_isalnum c = (let n = code_point c in
     (48 \<le> n \<and> n \<le> 57) \<or> (65 \<le> n \<and> n \<le> 90) \<or> (97 \<le> n \<and> n \<le> 122) \<or>
     n = 170 \<or> n = 178 \<or> n = 179 \<or> n = 181 \<or> n = 185 \<or> n = 186 \<or>
     (188 \<le> n \<and> n \<le> 190) \<or> (192 \<le> n \<and> n \<le> 214) \<or>
     (216 \<le> n \<and> n \<le> 246) \<or> (248 \<le> n \<and> n \<le> 255))"

text \<open>\<^verbatim>\<open>s.isalnum()\<close>: every character is alphanumeric and there is at least one.\<close>

definition str_isalnum :: "string \<Rightarrow> bool" where
  "str_isalnum s = (s \<noteq> [] \<and> list_all char_isalnum s)"

text \<open>\<^verbatim>\<open>s.lower()\<close>: A..Z and the Latin-1 capitals 192..222 (but 215) move up by 32.\<close>

definition char_lower :: "char \<Rightarrow> char" where
  "char_lower c = (let n = code_point c in
     if (65 \<le> n \<and> n \<le> 90) \<or> (192 \<le> n \<and> n \<le> 222 \<and> n \<noteq> 215)
     then char_of (n + 32) else c)"

definition str_lower :: "string \<Rightarrow> string" where
  "str_lower s = map char_lower s"

text \<open>
  \<^verbatim>\<open>s.split()\<close> with no argument: the maximal runs of non-whitespace characters, in
  order; \<open>w\<close> is the run being read.
\<close>

fun split_acc :: "string \<Rightarrow> string \<Rightarrow> string list" where
  "split_acc w [] = (if w = [] then [] else [w])"
| "split_acc w (c # cs) =
     (if isspace c then (if w = [] then split_acc [] cs else w # split_acc [] cs)
      else split_acc (w @ [c]) cs)"

definition str_split :: "string \<Rightarrow> string list" where
  "str_split s = split_acc [] s"

text \<open>\<^verbatim>\<open>s.strip()\<close>: leading and trailing whitespace removed.\<close>

definition str_strip :: "string \<Rightarrow> string" where
  "str_strip s = rev (dropWhile isspace (rev (dropWhile isspace s)))"

text \<open>\<^verbatim>\<open>re.sub(r'[^a-zA-Z0-9]', '', s)\<close>: only the ASCII letters and digits stay.\<close>

definition ascii_alnum :: "char \<Rightarrow> bool" where
  "ascii_alnum c = (let n = code_point c in
     (48 \<le> n \<and> n \<le> 57) \<or> (65 \<le> n \<and> n \<le> 90) \<or> (97 \<le> n \<and> n \<le> 122))"

definition re_sub_non_alnum :: "string \<Rightarrow> string" where
  "re_sub_non_alnum s = filter ascii_alnum s"

text \<open>
  \<^verbatim>\<open>os.path.join(a, b)\<close> on a POSIX system: an absolute \<open>b\<close> replaces \<open>a\<close>; otherwise
  one separator is put between the two unless \<open>a\<close> is empty or already ends with one.
\<close>

definition os_path_join :: "string \<Rightarrow> string \<Rightarrow> string" where
  "os_path_join a b =
     (if b \<noteq> [] \<and> hd b = CHR ''/'' then b
      else if a = [] \<or> last a = CHR ''/'' then a @ b
      else a @ ''/'' @ b)"

subsection \<open>Lists and dictionaries\<close>

text \<open>
  \<^verbatim>\<open>xs[i]\<close>: the indices 0 to len-1 read from the front, the indices -len to -1 from the
  back, every other index raises IndexError.
\<close>

definition list_getitem :: "'a list \<Rightarrow> int \<Rightarrow> error + 'a" where
  "list_getitem xs i =
     (if 0 \<le> i \<and> i < int (length xs) then Inr (xs ! nat i)
      else if i < 0 \<and> - int (length xs) \<le> i then Inr (xs ! nat (int (length xs) + i))
      else Inl IndexError)"

text \<open>
  A \<^verbatim>\<open>dict\<close> keeps its keys in insertion order, and the vocabulary build iterates over
  one, so a dictionary is an association list with distinct keys: \<open>map_of\<close> reads it, and
  \<open>AList.update\<close> overwrites the value of a key that is present and appends a new key at
  the end, as \<^verbatim>\<open>d[k] = v\<close> does.
\<close>

type_synonym ('k, 'v) dict = "('k \<times> 'v) list"

text \<open>\<^verbatim>\<open>d[k]\<close> on a plain dict raises KeyError for a missing key.\<close>

definition dict_getitem :: "('k, 'v) dict \<Rightarrow> 'k \<Rightarrow> error + 'v" where
  "dict_getitem d k = (case map_of d k of None \<Rightarrow> Inl KeyError | Some v \<Rightarrow> Inr v)"

text \<open>
  \<^verbatim>\<open>d[k]\<close> on a \<^verbatim>\<open>defaultdict\<close>: a missing key is first stored with the default value,
  so the read returns the value together with the dictionary it leaves behind.
\<close>

definition defaultdict_getitem :: "'v \<Rightarrow> ('k, 'v) dict \<Rightarrow> 'k \<Rightarrow> 'v \<times> ('k, 'v) dict" where
  "defaultdict_getitem dflt d k =
     (case map_of d k of None \<Rightarrow> (dflt, AList.update k dflt d) | Some v \<Rightarrow> (v, d))"

text \<open>\<^verbatim>\<open>token_counts[token] += 1\<close> on a \<^verbatim>\<open>defaultdict(int)\<close>.\<close>

definition defaultdict_incr :: "('k, int) dict \<Rightarrow> 'k \<Rightarrow> ('k, int) dict" where
  "defaultdict_incr d k =
     (let (v, d') = defaultdict_getitem 0 d k in AList.update k (v + 1) d')"

text \<open>\<^verbatim>\<open>labels[name].append(c)\<close> on a \<^verbatim>\<open>defaultdict(list)\<close>.\<close>

definition defaultdict_append :: "('k, 'a list) dict \<Rightarrow> 'k \<Rightarrow> 'a \<Rightarrow> ('k, 'a list) dict" where
  "defaultdict_append d k x =
     (let (v, d') = defaultdict_getitem [] d k in AList.update k (v @ [x]) d')"

text \<open>A list comprehension whose element expression can raise stops at the first exception.\<close>

fun map_raise :: "('a \<Rightarrow> error + 'b) \<Rightarrow> 'a list \<Rightarrow> error + 'b list" where
  "map_raise f [] = Inr []"
| "map_raise f (x # xs) =
     (case f x of
        Inl e \<Rightarrow> Inl e
      | Inr y \<Rightarrow> (case map_raise f xs of Inl e \<Rightarrow> Inl e | Inr ys \<Rightarrow> Inr (y # ys)))"

section \<open>Vocabulary\<close>

text \<open>
  The reserved tokens \<^verbatim>\<open>PAD\<close>, \<^verbatim>\<open>UNK_WORD\<close>, \<^verbatim>\<open>START_SEQ\<close> and \<^verbatim>\<open>END_SEQ\<close> are imported
  from \<^verbatim>\<open>dataset/enums.py\<close>, a module whose text is not among the sources. Their values are
  therefore a parameter \<open>E\<close> of every function that reads them.
\<close>

record enums =
  PAD :: string
  UNK_WORD :: string
  START_SEQ :: string
  END_SEQ :: string

record Vocabulary =
  word2idx :: "(string, int) dict"
  idx2word :: "(int, string) dict"
  idx :: int

text \<open>
  \<^verbatim>\<open>__init__\<close>: the dict display stores the four reserved tokens in the order written, and
  the comprehension \<^verbatim>\<open>{v:k for k,v in self.word2idx.items()}\<close> inverts it item by item.
\<close>

definition Vocabulary_init :: "enums \<Rightarrow> Vocabulary" where
  "Vocabulary_init E =
     (let w2i = fold (\<lambda>(k, v). AList.update k v)
                  [(PAD E, 0), (UNK_WORD E, 1), (START_SEQ E, 2), (END_SEQ E, 3)] []
      in \<lparr>word2idx = w2i,
          idx2word = fold (\<lambda>(k, v). AList.update v k) w2i [],
          idx = 4\<rparr>)"

definition add_word :: "Vocabulary \<Rightarrow> string \<Rightarrow> Vocabulary" where
  "add_word self word =
     (if map_of (word2idx self) word = None
      then \<lparr>word2idx = AList.update word (idx self) (word2idx self),
            idx2word = AList.update (idx self) word (idx2word self),
            idx = idx self + 1\<rparr>
      else self)"

text \<open>\<^verbatim>\<open>__call__\<close>: the id of a word, the id stored for \<^verbatim>\<open>UNK_WORD\<close> when it has none.\<close>

definition Vocabulary_call :: "enums \<Rightarrow> Vocabulary \<Rightarrow> string \<Rightarrow> error + int" where
  "Vocabulary_call E self word =
     (if map_of (word2idx self) word = None
      then dict_getitem (word2idx self) (UNK_WORD E)
      else dict_getitem (word2idx self) word)"

definition Vocabulary_len :: "Vocabulary \<Rightarrow> nat" where
  "Vocabulary_len self = length (word2idx self)"

definition encode_seq :: "enums \<Rightarrow> Vocabulary \<Rightarrow> string list \<Rightarrow> error + int list" where
  "encode_seq E self seq = map_raise (Vocabulary_call E self) seq"

definition decode_seq :: "Vocabulary \<Rightarrow> int list \<Rightarrow> error + string list" where
  "decode_seq self seq_idx = map_raise (dict_getitem (idx2word self)) seq_idx"

section \<open>Tokenizing a caption and building the vocabulary\<close>

text \<open>
  The same three lines normalise a caption in \<^verbatim>\<open>get_vocabulary\<close> and in
  \<^verbatim>\<open>FlickrConvRNN.__getitem__\<close>: split at whitespace, keep the pieces for which
  \<^verbatim>\<open>token.isalnum()\<close> holds, lowercase them and delete what is not an ASCII letter or
  digit, then drop the pieces that became empty.
\<close>

definition tokenize :: "string \<Rightarrow> string list" where
  "tokenize caption =
     (let tokens = str_split caption;
          tokens = [re_sub_non_alnum (str_lower token). token \<leftarrow> tokens, str_isalnum token];
          tokens = [token. token \<leftarrow> tokens, length token \<noteq> 0]
      in tokens)"

text \<open>
  \<^verbatim>\<open>get_vocabulary\<close>. Reading the label file is left to pandas; \<open>comments\<close> is the column
  \<^verbatim>\<open>" comment"\<close> of its rows, in file order. The first loop counts the tokens, the second
  walks \<^verbatim>\<open>token_counts.items()\<close> in insertion order and adds the tokens counted five
  times or more.
\<close>

definition count_tokens :: "string list \<Rightarrow> (string, int) dict" where
  "count_tokens comments =
     fold (\<lambda>comment token_counts.
             fold (\<lambda>token d. defaultdict_incr d token) (tokenize (str_strip comment)) token_counts)
          comments []"

definition get_vocabulary :: "enums \<Rightarrow> string list \<Rightarrow> Vocabulary" where
  "get_vocabulary E comments =
     fold (\<lambda>(token, count) vocab. if count \<ge> 5 then add_word vocab token else vocab)
          (count_tokens comments) (Vocabulary_init E)"

section \<open>The dataset: one sample per image\<close>

text \<open>
  The pixels of an image are values of an abstract type \<open>'px\<close>. An image is either a PIL
  image, as \<^verbatim>\<open>Image.open(...).convert("RGB")\<close> returns it, or a tensor, as a transform that
  ends with \<^verbatim>\<open>ToTensor\<close> returns it. Opening and converting the file is the work of PIL:
  \<open>Image_open\<close> maps a path to the pixels or to the exception raised. The label file is
  given as its rows \<open>(image_name, comment)\<close>, both of them strings.
\<close>

datatype 'px image = PIL 'px | Tensor 'px

record 'px FlickrConvRNN =
  first_caption_only :: bool
  transform :: "('px image \<Rightarrow> 'px image) option"
  vocab :: Vocabulary
  image_dir :: string
  image_ids :: "string list"
  labels :: "(string, string list) dict"

record 'px sample =
  images :: "'px image list"
  captions :: "int list list"
  all_captions :: "string list list"

definition FlickrConvRNN_init ::
  "string \<Rightarrow> string list \<Rightarrow> (string \<times> string) list \<Rightarrow> ('px image \<Rightarrow> 'px image) option \<Rightarrow>
   Vocabulary \<Rightarrow> bool \<Rightarrow> 'px FlickrConvRNN" where
  "FlickrConvRNN_init dir ids rows tr v fco =
     \<lparr>first_caption_only = fco, transform = tr, vocab = v, image_dir = dir, image_ids = ids,
      labels = fold (\<lambda>(image_name, comment) d. defaultdict_append d image_name (str_strip comment))
                 (filter (\<lambda>(image_name, comment). image_name \<in> set ids) rows) []\<rparr>"

definition FlickrConvRNN_len :: "'px FlickrConvRNN \<Rightarrow> nat" where
  "FlickrConvRNN_len self = length (image_ids self)"

text \<open>
  The loop over \<^verbatim>\<open>enumerate(captions)\<close> of \<^verbatim>\<open>__getitem__\<close>; \<open>i\<close> is the loop index and
  the pair holds \<^verbatim>\<open>encoded_captions\<close> and \<^verbatim>\<open>all_captions\<close>.
\<close>

fun caption_loop ::
  "enums \<Rightarrow> Vocabulary \<Rightarrow> bool \<Rightarrow> nat \<Rightarrow> string list \<Rightarrow> int list list \<times> string list list \<Rightarrow>
   error + (int list list \<times> string list list)" where
  "caption_loop E v fco i [] acc = Inr acc"
| "caption_loop E v fco i (c # cs) (encoded_captions, allc) =
     (let tokens = tokenize c;
          caption = [START_SEQ E] @ tokens @ [END_SEQ E]
      in if fco \<and> i = 0
         then (case encode_seq E v caption of
                 Inl e \<Rightarrow> Inl e
               | Inr ids \<Rightarrow> caption_loop E v fco (i + 1) cs (encoded_captions @ [ids], allc @ [caption]))
         else caption_loop E v fco (i + 1) cs (encoded_captions, allc @ [caption]))"

text \<open>
  \<^verbatim>\<open>__getitem__\<close>. Reading \<^verbatim>\<open>self.labels\<close>, a defaultdict, stores an empty list for an
  image without captions, so the dataset is returned with the sample.
\<close>

definition getitem ::
  "(string \<Rightarrow> error + 'px) \<Rightarrow> enums \<Rightarrow> 'px FlickrConvRNN \<Rightarrow> int \<Rightarrow>
   error + ('px sample \<times> 'px FlickrConvRNN)" where
  "getitem Image_open E self i =
     (case list_getitem (image_ids self) i of
        Inl e \<Rightarrow> Inl e
      | Inr image_id \<Rightarrow>
          (case Image_open (os_path_join (image_dir self) image_id) of
             Inl e \<Rightarrow> Inl e
           | Inr px \<Rightarrow>
               (let imgs = [PIL px];
                    imgs = (case transform self of None \<Rightarrow> imgs | Some f \<Rightarrow> [f (PIL px)]);
                    imgs = (if \<not> first_caption_only self then concat (replicate 5 imgs) else imgs);
                    (caps, labels') = defaultdict_getitem [] (labels self) image_id
                in case caption_loop E (vocab self) (first_caption_only self) 0 caps ([], []) of
                     Inl e \<Rightarrow> Inl e
                   | Inr (encoded_captions, allc) \<Rightarrow>
                       Inr (\<lparr>images = imgs, captions = encoded_captions, all_captions = allc\<rparr>,
                            self\<lparr>labels := labels'\<rparr>))))"

section \<open>Assembling a batch\<close>

text \<open>
  \<^verbatim>\<open>image.unsqueeze(dim=0)\<close> gives a tensor a leading axis of size one, along which the
  images are stacked afterwards; the pixels stay the same. A PIL image has no such method
  (AttributeError).
\<close>

fun unsqueeze :: "'px image \<Rightarrow> error + 'px image" where
  "unsqueeze (PIL px) = Inl AttributeError"
| "unsqueeze (Tensor px) = Inr (Tensor px)"

text \<open>
  The first loop of \<^verbatim>\<open>BatchCollateFn.__call__\<close>; the accumulator holds \<^verbatim>\<open>images\<close>,
  \<^verbatim>\<open>lengths\<close>, \<^verbatim>\<open>captions\<close> and \<^verbatim>\<open>all_captions\<close>.
\<close>

fun collect ::
  "'px sample list \<Rightarrow>
   'px image list \<times> nat list \<times> int list list \<times> string list list list \<Rightarrow>
   error + ('px image list \<times> nat list \<times> int list list \<times> string list list list)" where
  "collect [] acc = Inr acc"
| "collect (batch # rest) (imgs, lengths, caps, allc) =
     (case map_raise unsqueeze (images batch) of
        Inl e \<Rightarrow> Inl e
      | Inr unsqueezed \<Rightarrow>
          collect rest (imgs @ unsqueezed,
                        lengths @ map length (captions batch),
                        caps @ captions batch,
                        allc @ [all_captions batch]))"

text \<open>
  \<^verbatim>\<open>torch.vstack\<close> of the unsqueezed images gives one tensor with one entry per image,
  here the list itself; it raises RuntimeError for an empty list. (The images of a
  dataset all have the shape the transform gives them; a shape mismatch is not modelled.)
\<close>

definition vstack :: "'px image list \<Rightarrow> error + 'px image list" where
  "vstack imgs = (if imgs = [] then Inl RuntimeError else Inr imgs)"

text \<open>\<^verbatim>\<open>max(lengths)\<close> raises ValueError for an empty list.\<close>

definition py_max :: "nat list \<Rightarrow> error + nat" where
  "py_max xs = (case xs of [] \<Rightarrow> Inl ValueError | x # rest \<Rightarrow> Inr (fold max rest x))"

text \<open>\<^verbatim>\<open>torch.zeros(n, m).long()\<close>: \<open>n\<close> rows of \<open>m\<close> zeros.\<close>

definition zeros :: "nat \<Rightarrow> nat \<Rightarrow> int list list" where
  "zeros n m = replicate n (replicate m 0)"

text \<open>
  \<^verbatim>\<open>torch.tensor(caption, dtype=torch.long)\<close>: the entries must fit in 64 bits (signed),
  otherwise RuntimeError.
\<close>

definition int64 :: "int \<Rightarrow> bool" where
  "int64 x = (- (2 ^ 63) \<le> x \<and> x < 2 ^ 63)"

definition tensor_long :: "int list \<Rightarrow> error + int list" where
  "tensor_long xs = (if list_all int64 xs then Inr xs else Inl RuntimeError)"

text \<open>
  \<^verbatim>\<open>buf[i, :n] = t\<close>: row \<open>i\<close> must exist; the slice is cut at the row's width; \<open>t\<close> must
  have the slice's size, or one element, which is then broadcast.
\<close>

definition setitem_row :: "int list list \<Rightarrow> nat \<Rightarrow> nat \<Rightarrow> int list \<Rightarrow> error + int list list" where
  "setitem_row buf i n t =
     (if i \<ge> length buf then Inl IndexError
      else let row = buf ! i; k = min n (length row)
           in if length t = k then Inr (buf[i := t @ drop k row])
              else if length t = 1 then Inr (buf[i := replicate k (hd t) @ drop k row])
              else Inl RuntimeError)"

text \<open>The padding loop over \<^verbatim>\<open>enumerate(captions)\<close>.\<close>

fun pad_loop :: "nat \<Rightarrow> int list list \<Rightarrow> nat list \<Rightarrow> int list list \<Rightarrow> error + int list list" where
  "pad_loop i [] lengths captions_padded = Inr captions_padded"
| "pad_loop i (caption # rest) lengths captions_padded =
     (case list_getitem lengths (int i) of
        Inl e \<Rightarrow> Inl e
      | Inr len \<Rightarrow>
          (case tensor_long caption of
             Inl e \<Rightarrow> Inl e
           | Inr t \<Rightarrow>
               (case setitem_row captions_padded i len t of
                  Inl e \<Rightarrow> Inl e
                | Inr buf \<Rightarrow> pad_loop (i + 1) rest lengths buf)))"

definition BatchCollateFn ::
  "'px sample list \<Rightarrow>
   error + ('px image list \<times> int list list \<times> nat list \<times> string list list list)" where
  "BatchCollateFn data =
     (case collect data ([], [], [], []) of
        Inl e \<Rightarrow> Inl e
      | Inr (imgs, lengths, caps, allc) \<Rightarrow>
          (case vstack imgs of
             Inl e \<Rightarrow> Inl e
           | Inr stacked \<Rightarrow>
               (case py_max lengths of
                  Inl e \<Rightarrow> Inl e
                | Inr m \<Rightarrow>
                    (case pad_loop 0 caps lengths (zeros (length lengths) m) of
                       Inl e \<Rightarrow> Inl e
                     | Inr captions_padded \<Rightarrow> Inr (stacked, captions_padded, lengths, allc)))))"

text \<open>
  The data loaders that \<^verbatim>\<open>get_dataloader\<close> builds hand \<^verbatim>\<open>BatchCollateFn\<close> the samples of one
  batch of indices: \<^verbatim>\<open>collate_fn([dataset[i] for i in indices])\<close>. The samples are read one
  after the other, each read leaving the dataset to the next.
\<close>

fun fetch ::
  "(string \<Rightarrow> error + 'px) \<Rightarrow> enums \<Rightarrow> 'px FlickrConvRNN \<Rightarrow> int list \<Rightarrow>
   error + ('px sample list \<times> 'px FlickrConvRNN)" where
  "fetch Image_open E ds [] = Inr ([], ds)"
| "fetch Image_open E ds (i # rest) =
     (case getitem Image_open E ds i of
        Inl e \<Rightarrow> Inl e
      | Inr (s, ds1) \<Rightarrow>
          (case fetch Image_open E ds1 rest of
             Inl e \<Rightarrow> Inl e
           | Inr (ss, ds2) \<Rightarrow> Inr (s # ss, ds2)))"

definition load_batch ::
  "(string \<Rightarrow> error + 'px) \<Rightarrow> enums \<Rightarrow> 'px FlickrConvRNN \<Rightarrow> int list \<Rightarrow>
   error + ('px image list \<times> int list list \<times> nat list \<times> string list list list)" where
  "load_batch Image_open E ds indices =
     (case fetch Image_open E ds indices of
        Inl e \<Rightarrow> Inl e
      | Inr (data, ds') \<Rightarrow> BatchCollateFn data)"

section \<open>Early stopping\<close>

text \<open>
  A Python \<^verbatim>\<open>float\<close> is a finite number, an infinity or NaN. Finite values are real
  numbers here: rounding and overflow of the subtraction are not modelled, the special
  values are.
\<close>

datatype pyfloat = Finite real | PosInf | NegInf | NaN

fun float_sub :: "pyfloat \<Rightarrow> pyfloat \<Rightarrow> pyfloat" where
  "float_sub NaN y = NaN"
| "float_sub x NaN = NaN"
| "float_sub (Finite a) (Finite b) = Finite (a - b)"
| "float_sub (Finite a) PosInf = NegInf"
| "float_sub (Finite a) NegInf = PosInf"
| "float_sub PosInf PosInf = NaN"
| "float_sub PosInf y = PosInf"
| "float_sub NegInf NegInf = NaN"
| "float_sub NegInf y = NegInf"

fun float_gt :: "pyfloat \<Rightarrow> pyfloat \<Rightarrow> bool" where
  "float_gt NaN y = False"
| "float_gt x NaN = False"
| "float_gt (Finite a) (Finite b) = (a > b)"
| "float_gt (Finite a) PosInf = False"
| "float_gt (Finite a) NegInf = True"
| "float_gt PosInf PosInf = False"
| "float_gt PosInf y = True"
| "float_gt NegInf y = False"

definition float_ge :: "pyfloat \<Rightarrow> pyfloat \<Rightarrow> bool" where
  "float_ge x y = (x \<noteq> NaN \<and> y \<noteq> NaN \<and> (float_gt x y \<or> x = y))"

record EarlyStopping =
  patience :: int
  mode :: string
  threshold :: pyfloat
  best_score :: pyfloat
  num_bad_epoch :: int

text \<open>
  \<^verbatim>\<open>EarlyStopping.__init__\<close>. The logger, the output directory and the files written by
  \<^verbatim>\<open>torch.save\<close> belong to the training harness and are left out of the state.
\<close>

definition EarlyStopping_init :: "int \<Rightarrow> string \<Rightarrow> pyfloat \<Rightarrow> EarlyStopping" where
  "EarlyStopping_init p m t =
     \<lparr>patience = p, mode = m, threshold = t,
      best_score = (if m = ''max'' then Finite 0 else PosInf),
      num_bad_epoch = 0\<rparr>"

text \<open>\<^verbatim>\<open>better_score\<close> returns nothing (\<^verbatim>\<open>None\<close>) for a mode other than max and min.\<close>

definition better_score :: "EarlyStopping \<Rightarrow> pyfloat \<Rightarrow> bool option" where
  "better_score self score =
     (if mode self = ''max'' then Some (float_gt (float_sub score (best_score self)) (threshold self))
      else if mode self = ''min'' then Some (float_gt (float_sub (best_score self) score) (threshold self))
      else None)"

text \<open>\<^verbatim>\<open>__call__\<close>: the returned flag and the state after the call; \<^verbatim>\<open>None\<close> is falsy.\<close>

definition EarlyStopping_call :: "EarlyStopping \<Rightarrow> pyfloat \<Rightarrow> bool \<times> EarlyStopping" where
  "EarlyStopping_call self score =
     (if better_score self score = Some True
      then (True, self\<lparr>best_score := score, num_bad_epoch := 0\<rparr>)
      else let self' = self\<lparr>num_bad_epoch := num_bad_epoch self + 1\<rparr>
           in if num_bad_epoch self' \<ge> patience self' then (False, self') else (True, self'))"

text \<open>A training run calls the object once per epoch with that epoch's score.\<close>

definition calls :: "EarlyStopping \<Rightarrow> pyfloat list \<Rightarrow> EarlyStopping" where
  "calls self scores = fold (\<lambda>score s. snd (EarlyStopping_call s score)) scores self"

section \<open>Notions used in the statements\<close>

text \<open>Any sequence of \<^verbatim>\<open>add_word\<close> calls on a vocabulary, in order.\<close>

definition add_words :: "Vocabulary \<Rightarrow> string list \<Rightarrow> Vocabulary" where
  "add_words self ws = fold (\<lambda>w v. add_word v w) ws self"

definition reserved :: "enums \<Rightarrow> string list" where
  "reserved E = [PAD E, UNK_WORD E, START_SEQ E, END_SEQ E]"

text \<open>
  The invariant of a vocabulary: \<open>idx2word\<close> inverts \<open>word2idx\<close>, every id handed out is
  below the counter \<open>idx\<close>, and the reserved tokens have the ids 0 to 3.
\<close>

definition vocab_inv :: "enums \<Rightarrow> Vocabulary \<Rightarrow> bool" where
  "vocab_inv E v \<longleftrightarrow>
     (\<forall>w i. map_of (idx2word v) i = Some w \<longleftrightarrow> map_of (word2idx v) w = Some i) \<and>
     (\<forall>w i. map_of (word2idx v) w = Some i \<longrightarrow> i < idx v) \<and>
     map_of (word2idx v) (PAD E) = Some 0 \<and>
     map_of (word2idx v) (UNK_WORD E) = Some 1 \<and>
     map_of (word2idx v) (START_SEQ E) = Some 2 \<and>
     map_of (word2idx v) (END_SEQ E) = Some 3"

text \<open>The position at which a token occurs first in a token stream.\<close>

definition first_index :: "'a list \<Rightarrow> 'a \<Rightarrow> nat" where
  "first_index xs x = length (takeWhile (\<lambda>y. y \<noteq> x) xs)"

text \<open>All tokens of a label file, in reading order.\<close>

definition corpus_tokens :: "string list \<Rightarrow> string list" where
  "corpus_tokens comments = concat (map (\<lambda>comment. tokenize (str_strip comment)) comments)"

text \<open>An image that \<^verbatim>\<open>BatchCollateFn\<close> can stack.\<close>

fun is_tensor :: "'px image \<Rightarrow> bool" where
  "is_tensor (PIL px) = False"
| "is_tensor (Tensor px) = True"

text \<open>The three values of the dictionary that \<^verbatim>\<open>__getitem__\<close> returns.\<close>

definition returned_dict ::
  "error + ('px sample \<times> 'px FlickrConvRNN) \<Rightarrow>
   error + ('px image list \<times> int list list \<times> string list list)" where
  "returned_dict r = map_sum id (\<lambda>(s, ds). (images s, captions s, all_captions s)) r"

text \<open>
  Example data: four reserved tokens as a captioning project would choose them, and a
  label file of three rows about the images \<^verbatim>\<open>a.jpg\<close> and \<^verbatim>\<open>b.jpg\<close>. In the examples the
  pixels of an image are its path, so \<open>Inr\<close> opens every file, and the transform is one
  that turns the opened image into a tensor.
\<close>

fun to_tensor :: "'px image \<Rightarrow> 'px image" where
  "to_tensor (PIL px) = Tensor px"
| "to_tensor (Tensor px) = Tensor px"

definition E0 :: enums where
  "E0 = \<lparr>PAD = ''<pad>'', UNK_WORD = ''<unk>'', START_SEQ = ''<start>'', END_SEQ = ''<end>''\<rparr>"

definition rows0 :: "(string \<times> string) list" where
  "rows0 = [(''a.jpg'', '' A dog runs .''), (''b.jpg'', '' A cat''), (''a.jpg'', '' Two dogs'')]"

text \<open>
  A label file in which the token a occurs five times, dog five times, cat four times
  and the token and once; a appears first, then dog, and, cat.
\<close>

definition corpus0 :: "string list" where
  "corpus0 = ['' A dog and a cat .'', '' a dog a dog cat'', '' Dog cat dog a cat'']"

text \<open>Three samples of one image and one encoded caption each, of the lengths 3, 5 and 2.\<close>

definition batch352 :: "string sample list" where
  "batch352 =
     [\<lparr>images = [Tensor ''img/a.jpg''], captions = [[2, 4, 3]],
       all_captions = [[''<start>'', ''dog'', ''<end>'']]\<rparr>,
      \<lparr>images = [Tensor ''img/b.jpg''], captions = [[2, 5, 4, 6, 3]],
       all_captions = [[''<start>'', ''a'', ''dog'', ''runs'', ''<end>'']]\<rparr>,
      \<lparr>images = [Tensor ''img/c.jpg''], captions = [[2, 3]],
       all_captions = [[''<start>'', ''<end>'']]\<rparr>]"

text \<open>
  The two samples that a first-caption-only dataset over \<^verbatim>\<open>a.jpg\<close> and \<^verbatim>\<open>b.jpg\<close> returns
  for the rows above, with the transform above and the vocabulary that holds the reserved
  tokens only.
\<close>

definition batch_ab :: "string sample list" where
  "batch_ab =
     [\<lparr>images = [Tensor ''img/a.jpg''], captions = [[2, 1, 1, 1, 3]],
       all_captions = [[''<start>'', ''a'', ''dog'', ''runs'', ''<end>''],
                       [''<start>'', ''two'', ''dogs'', ''<end>'']]\<rparr>,
      \<lparr>images = [Tensor ''img/b.jpg''], captions = [[2, 1, 1, 3]],
       all_captions = [[''<start>'', ''a'', ''cat'', ''<end>'']]\<rparr>]"

section \<open>The tokenizer\<close>

text \<open>
  C2 (as stated): tokenizing "A cat, sitting!" yields the tokens a, cat, sitting. The code
  does not: the filter \<^verbatim>\<open>if token.isalnum()\<close> looks at the piece before anything is
  stripped from it.
\<close>

theorem tokenize_example_counterexample:
  "tokenize ''A cat, sitting!'' \<noteq> [''a'', ''cat'', ''sitting'']"
  by code_simp

text \<open>
  C2 (amended): tokenizing "A cat, sitting!" yields exactly the token a. The string is
  split at whitespace into three pieces; the pieces "cat," and "sitting!" are not
  alphanumeric and are dropped whole; the piece "A" is kept and lowercased.
\<close>

theorem tokenize_example:
  "str_split ''A cat, sitting!'' = [''A'', ''cat,'', ''sitting!''] \<and>
   \<not> str_isalnum ''cat,'' \<and> \<not> str_isalnum ''sitting!'' \<and>
   tokenize ''A cat, sitting!'' = [''a'']"
  by code_simp

section \<open>The vocabulary is a bijection\<close>

lemma Vocabulary_init_distinct:
  assumes "distinct (reserved E)"
  shows "Vocabulary_init E =
     \<lparr>word2idx = [(PAD E, 0), (UNK_WORD E, 1), (START_SEQ E, 2), (END_SEQ E, 3)],
      idx2word = [(0, PAD E), (1, UNK_WORD E), (2, START_SEQ E), (3, END_SEQ E)],
      idx = 4\<rparr>"
  using assms by (auto simp: Vocabulary_init_def reserved_def Let_def)

lemma vocab_inv_init:
  assumes "distinct (reserved E)"
  shows "vocab_inv E (Vocabulary_init E)"
  using assms unfolding Vocabulary_init_distinct[OF assms] vocab_inv_def
  by (auto simp: reserved_def)

lemma vocab_inv_add_word:
  assumes "vocab_inv E v"
  shows "vocab_inv E (add_word v w)"
proof (cases "map_of (word2idx v) w = None")
  case False
  then show ?thesis using assms by (auto simp: add_word_def)
next
  case True
  have bound: "\<And>u i. map_of (word2idx v) u = Some i \<Longrightarrow> i < idx v"
    using assms unfolding vocab_inv_def by blast
  have inverse: "\<And>u i. map_of (idx2word v) i = Some u \<longleftrightarrow> map_of (word2idx v) u = Some i"
    using assms unfolding vocab_inv_def by blast
  have nr: "w \<noteq> PAD E" "w \<noteq> UNK_WORD E" "w \<noteq> START_SEQ E" "w \<noteq> END_SEQ E"
    using True assms by (auto simp: vocab_inv_def)
  let ?v' = "add_word v w"
  have w2i: "map_of (word2idx ?v') = (map_of (word2idx v))(w \<mapsto> idx v)"
    and i2w: "map_of (idx2word ?v') = (map_of (idx2word v))(idx v \<mapsto> w)"
    and idx': "idx ?v' = idx v + 1"
    using True by (simp_all add: add_word_def AList.update_conv')
  have "\<forall>u i. map_of (idx2word ?v') i = Some u \<longleftrightarrow> map_of (word2idx ?v') u = Some i"
  proof (intro allI)
    fix u i
    show "map_of (idx2word ?v') i = Some u \<longleftrightarrow> map_of (word2idx ?v') u = Some i"
    proof (cases "i = idx v")
      case eq: True
      have "map_of (word2idx v) u \<noteq> Some (idx v)" using bound[of u "idx v"] by auto
      then show ?thesis using eq by (auto simp: w2i i2w)
    next
      case neq: False
      have "u = w \<Longrightarrow> map_of (idx2word v) i \<noteq> Some u"
        using inverse[of i u] True by simp
      then show ?thesis using neq inverse[of i u] by (auto simp: w2i i2w)
    qed
  qed
  moreover have "\<forall>u i. map_of (word2idx ?v') u = Some i \<longrightarrow> i < idx ?v'"
    using bound by (fastforce simp: w2i idx' split: if_splits)
  moreover have "map_of (word2idx ?v') (PAD E) = Some 0" "map_of (word2idx ?v') (UNK_WORD E) = Some 1"
    "map_of (word2idx ?v') (START_SEQ E) = Some 2" "map_of (word2idx ?v') (END_SEQ E) = Some 3"
    using assms nr by (simp_all add: w2i vocab_inv_def)
  ultimately show ?thesis unfolding vocab_inv_def by blast
qed

lemma vocab_inv_add_words:
  "vocab_inv E v \<Longrightarrow> vocab_inv E (add_words v ws)"
  unfolding add_words_def
  by (induction ws arbitrary: v) (simp_all add: vocab_inv_add_word)

lemma vocab_inv_built:
  "distinct (reserved E) \<Longrightarrow> vocab_inv E (add_words (Vocabulary_init E) ws)"
  by (simp add: vocab_inv_init vocab_inv_add_words)

text \<open>
  C9: after the construction of a vocabulary and any sequence of \<^verbatim>\<open>add_word\<close> calls,
  \<open>word2idx\<close> is injective, \<open>idx2word\<close> is exactly its inverse, and the reserved
  entries PAD, UNK, START and END have the ids 0, 1, 2 and 3. The four reserved tokens
  are taken to be four different strings.
\<close>

theorem vocabulary_bijection:
  assumes "distinct (reserved E)"
  shows "(\<forall>w1 w2 i. map_of (word2idx (add_words (Vocabulary_init E) ws)) w1 = Some i \<and>
                    map_of (word2idx (add_words (Vocabulary_init E) ws)) w2 = Some i \<longrightarrow> w1 = w2) \<and>
         (\<forall>w i. map_of (idx2word (add_words (Vocabulary_init E) ws)) i = Some w \<longleftrightarrow>
                 map_of (word2idx (add_words (Vocabulary_init E) ws)) w = Some i) \<and>
         map_of (word2idx (add_words (Vocabulary_init E) ws)) (PAD E) = Some 0 \<and>
         map_of (word2idx (add_words (Vocabulary_init E) ws)) (UNK_WORD E) = Some 1 \<and>
         map_of (word2idx (add_words (Vocabulary_init E) ws)) (START_SEQ E) = Some 2 \<and>
         map_of (word2idx (add_words (Vocabulary_init E) ws)) (END_SEQ E) = Some 3"
proof -
  let ?v = "add_words (Vocabulary_init E) ws"
  have inv: "vocab_inv E ?v"
    using assms by (rule vocab_inv_built)
  have inverse: "\<forall>w i. map_of (idx2word ?v) i = Some w \<longleftrightarrow> map_of (word2idx ?v) w = Some i"
    using inv unfolding vocab_inv_def by blast
  have "\<forall>w1 w2 i. map_of (word2idx ?v) w1 = Some i \<and> map_of (word2idx ?v) w2 = Some i \<longrightarrow> w1 = w2"
  proof (intro allI impI)
    fix w1 w2 i
    assume "map_of (word2idx ?v) w1 = Some i \<and> map_of (word2idx ?v) w2 = Some i"
    with inverse have "map_of (idx2word ?v) i = Some w1" "map_of (idx2word ?v) i = Some w2"
      by blast+
    then show "w1 = w2" by simp
  qed
  with inverse inv show ?thesis unfolding vocab_inv_def by blast
qed

theorem vocabulary_bijection_witness:
  "distinct (reserved E0) \<and>
   (\<forall>w i. map_of (idx2word (add_words (Vocabulary_init E0) [''dog'', ''<unk>'', ''a'', ''dog''])) i = Some w \<longleftrightarrow>
           map_of (word2idx (add_words (Vocabulary_init E0) [''dog'', ''<unk>'', ''a'', ''dog''])) w = Some i) \<and>
   map_of (word2idx (add_words (Vocabulary_init E0) [''dog'', ''<unk>'', ''a'', ''dog''])) (PAD E0) = Some 0 \<and>
   map_of (word2idx (add_words (Vocabulary_init E0) [''dog'', ''<unk>'', ''a'', ''dog''])) (UNK_WORD E0) = Some 1 \<and>
   map_of (word2idx (add_words (Vocabulary_init E0) [''dog'', ''<unk>'', ''a'', ''dog''])) (START_SEQ E0) = Some 2 \<and>
   map_of (word2idx (add_words (Vocabulary_init E0) [''dog'', ''<unk>'', ''a'', ''dog''])) (END_SEQ E0) = Some 3"
proof -
  have h: "distinct (reserved E0)" by code_simp
  from vocabulary_bijection[OF h, of "[''dog'', ''<unk>'', ''a'', ''dog'']"] h
  show ?thesis by blast
qed

section \<open>Encoding and decoding\<close>

lemma dict_getitem_Some: "map_of d k = Some v \<Longrightarrow> dict_getitem d k = Inr v"
  by (simp add: dict_getitem_def)

lemma Vocabulary_call_present:
  "map_of (word2idx v) w = Some i \<Longrightarrow> Vocabulary_call E v w = Inr i"
  by (simp add: Vocabulary_call_def dict_getitem_def)

lemma Vocabulary_call_absent:
  "vocab_inv E v \<Longrightarrow> map_of (word2idx v) w = None \<Longrightarrow> Vocabulary_call E v w = Inr 1"
  by (simp add: Vocabulary_call_def dict_getitem_def vocab_inv_def)

lemma encode_decode_present:
  assumes "vocab_inv E v" and "\<forall>t\<in>set tokens. map_of (word2idx v) t \<noteq> None"
  shows "\<exists>ids. encode_seq E v tokens = Inr ids \<and> decode_seq v ids = Inr tokens"
  using assms(2)
proof (induction tokens)
  case Nil
  then show ?case by (simp add: encode_seq_def decode_seq_def)
next
  case (Cons t ts)
  then obtain ids where ids: "encode_seq E v ts = Inr ids" "decode_seq v ids = Inr ts"
    by auto
  from Cons.prems obtain i where i: "map_of (word2idx v) t = Some i" by auto
  with assms(1) have inv_i: "map_of (idx2word v) i = Some t" by (simp add: vocab_inv_def)
  have "encode_seq E v (t # ts) = Inr (i # ids)"
    using ids(1) i by (simp add: encode_seq_def Vocabulary_call_present)
  moreover have "decode_seq v (i # ids) = Inr (t # ts)"
    using ids(2) inv_i by (simp add: decode_seq_def dict_getitem_Some)
  ultimately show ?case by blast
qed

text \<open>
  C6: for a vocabulary built by \<^verbatim>\<open>add_word\<close> calls and a token sequence whose tokens are
  all in the vocabulary, encoding succeeds and decoding the ids gives the token sequence
  back; a token that is not in the vocabulary is encoded as 1, the id of UNK, and
  decoding that id gives the UNK token, which is not the original one. The four reserved
  tokens are taken to be four different strings.
\<close>

theorem encode_decode_roundtrip:
  assumes "distinct (reserved E)"
  shows "((\<forall>t\<in>set tokens. map_of (word2idx (add_words (Vocabulary_init E) ws)) t \<noteq> None) \<longrightarrow>
           (\<exists>ids. encode_seq E (add_words (Vocabulary_init E) ws) tokens = Inr ids \<and>
                  decode_seq (add_words (Vocabulary_init E) ws) ids = Inr tokens)) \<and>
         (map_of (word2idx (add_words (Vocabulary_init E) ws)) t = None \<longrightarrow>
           Vocabulary_call E (add_words (Vocabulary_init E) ws) t = Inr 1 \<and>
           map_of (word2idx (add_words (Vocabulary_init E) ws)) (UNK_WORD E) = Some 1 \<and>
           decode_seq (add_words (Vocabulary_init E) ws) [1] = Inr [UNK_WORD E] \<and>
           UNK_WORD E \<noteq> t)"
proof -
  let ?v = "add_words (Vocabulary_init E) ws"
  have inv: "vocab_inv E ?v"
    using assms by (rule vocab_inv_built)
  have present: "(\<forall>t\<in>set tokens. map_of (word2idx ?v) t \<noteq> None) \<longrightarrow>
           (\<exists>ids. encode_seq E ?v tokens = Inr ids \<and> decode_seq ?v ids = Inr tokens)"
    using encode_decode_present[OF inv] by blast
  have unk: "map_of (word2idx ?v) (UNK_WORD E) = Some 1"
    using inv by (simp add: vocab_inv_def)
  with inv have "map_of (idx2word ?v) 1 = Some (UNK_WORD E)"
    by (simp add: vocab_inv_def)
  then have "decode_seq ?v [1] = Inr [UNK_WORD E]"
    by (simp add: decode_seq_def dict_getitem_Some)
  with unk have "map_of (word2idx ?v) t = None \<longrightarrow>
           Vocabulary_call E ?v t = Inr 1 \<and> map_of (word2idx ?v) (UNK_WORD E) = Some 1 \<and>
           decode_seq ?v [1] = Inr [UNK_WORD E] \<and> UNK_WORD E \<noteq> t"
    using Vocabulary_call_absent[OF inv] by auto
  with present show ?thesis by blast
qed

theorem encode_decode_roundtrip_witness:
  "distinct (reserved E0) \<and>
   map_of (word2idx (add_words (Vocabulary_init E0) [''a'', ''dog''])) ''dog'' = Some 5 \<and>
   map_of (word2idx (add_words (Vocabulary_init E0) [''a'', ''dog''])) ''<start>'' = Some 2 \<and>
   map_of (word2idx (add_words (Vocabulary_init E0) [''a'', ''dog''])) ''a'' = Some 4 \<and>
   (\<exists>ids. encode_seq E0 (add_words (Vocabulary_init E0) [''a'', ''dog'']) [''dog'', ''<start>'', ''a''] = Inr ids \<and>
          decode_seq (add_words (Vocabulary_init E0) [''a'', ''dog'']) ids = Inr [''dog'', ''<start>'', ''a'']) \<and>
   map_of (word2idx (add_words (Vocabulary_init E0) [''a'', ''dog''])) ''cat'' = None \<and>
   Vocabulary_call E0 (add_words (Vocabulary_init E0) [''a'', ''dog'']) ''cat'' = Inr 1 \<and>
   decode_seq (add_words (Vocabulary_init E0) [''a'', ''dog'']) [1] = Inr [UNK_WORD E0] \<and>
   UNK_WORD E0 \<noteq> ''cat''"
proof -
  have h: "distinct (reserved E0)" by code_simp
  have p: "map_of (word2idx (add_words (Vocabulary_init E0) [''a'', ''dog''])) ''dog'' = Some 5"
    "map_of (word2idx (add_words (Vocabulary_init E0) [''a'', ''dog''])) ''<start>'' = Some 2"
    "map_of (word2idx (add_words (Vocabulary_init E0) [''a'', ''dog''])) ''a'' = Some 4"
    by code_simp+
  then have q: "\<forall>t\<in>set [''dog'', ''<start>'', ''a''].
      map_of (word2idx (add_words (Vocabulary_init E0) [''a'', ''dog''])) t \<noteq> None"
    by simp
  have a: "map_of (word2idx (add_words (Vocabulary_init E0) [''a'', ''dog''])) ''cat'' = None"
    by code_simp
  from encode_decode_roundtrip[OF h, of "[''dog'', ''<start>'', ''a'']" "[''a'', ''dog'']" "''cat''"] h p q a
  show ?thesis by blast
qed

section \<open>Building the vocabulary\<close>

lemma fold_nested_concat:
  "fold (\<lambda>x acc. fold g (h x) acc) xs d = fold g (concat (map h xs)) d"
  by (induction xs arbitrary: d) simp_all

lemma count_tokens_fold:
  "count_tokens comments = fold (\<lambda>token d. defaultdict_incr d token) (corpus_tokens comments) []"
  by (simp add: count_tokens_def corpus_tokens_def fold_nested_concat)

lemma map_of_defaultdict_incr:
  "map_of (defaultdict_incr d k) =
     (map_of d)(k \<mapsto> (case map_of d k of None \<Rightarrow> 0 | Some n \<Rightarrow> n) + 1)"
  by (auto simp: defaultdict_incr_def defaultdict_getitem_def AList.update_conv' split: option.splits)

lemma keys_defaultdict_incr:
  "map fst (defaultdict_incr d k) = (if k \<in> set (map fst d) then map fst d else map fst d @ [k])"
  by (auto simp: defaultdict_incr_def defaultdict_getitem_def AList.update_keys map_of_eq_None_iff
           split: option.splits dest: map_of_SomeD)

lemma counts_snoc:
  "fold (\<lambda>token d. defaultdict_incr d token) (toks @ [x]) [] =
     defaultdict_incr (fold (\<lambda>token d. defaultdict_incr d token) toks []) x"
  by simp

lemma counts_lookup:
  "map_of (fold (\<lambda>token d. defaultdict_incr d token) toks []) t =
     (if t \<in> set toks then Some (int (count_list toks t)) else None)"
proof (induction toks rule: rev_induct)
  case Nil
  show ?case by simp
next
  case (snoc x toks)
  show ?case
    unfolding counts_snoc map_of_defaultdict_incr
    using snoc by (auto simp: count_list_0_iff)
qed

lemma first_index_append:
  "a \<in> set xs \<Longrightarrow> first_index (xs @ ys) a = first_index xs a"
  by (induction xs) (auto simp: first_index_def)

lemma first_index_less: "a \<in> set xs \<Longrightarrow> first_index xs a < length xs"
  by (induction xs) (auto simp: first_index_def)

lemma first_index_new: "x \<notin> set xs \<Longrightarrow> first_index (xs @ [x]) x = length xs"
  by (induction xs) (auto simp: first_index_def)

lemma counts_keys:
  "distinct (map fst (fold (\<lambda>token d. defaultdict_incr d token) toks [])) \<and>
   set (map fst (fold (\<lambda>token d. defaultdict_incr d token) toks [])) = set toks \<and>
   sorted_wrt (\<lambda>a b. first_index toks a < first_index toks b)
     (map fst (fold (\<lambda>token d. defaultdict_incr d token) toks []))"
proof (induction toks rule: rev_induct)
  case Nil
  show ?case by simp
next
  case (snoc x toks)
  let ?K = "map fst (fold (\<lambda>token d. defaultdict_incr d token) toks [])"
  have K: "distinct ?K" "set ?K = set toks"
    "sorted_wrt (\<lambda>a b. first_index toks a < first_index toks b) ?K"
    using snoc by simp_all
  have same: "sorted_wrt (\<lambda>a b. first_index (toks @ [x]) a < first_index (toks @ [x]) b) ?K"
  proof (rule sorted_wrt_mono_rel[OF _ K(3)])
    fix a b assume "a \<in> set ?K" "b \<in> set ?K" "first_index toks a < first_index toks b"
    then show "first_index (toks @ [x]) a < first_index (toks @ [x]) b"
      using K(2) by (simp add: first_index_append)
  qed
  show ?case
  proof (cases "x \<in> set toks")
    case True
    then show ?thesis
      unfolding counts_snoc keys_defaultdict_incr using K same by auto
  next
    case False
    have "\<forall>a\<in>set toks. first_index (toks @ [x]) a < first_index (toks @ [x]) x"
      using False by (simp add: first_index_append first_index_new first_index_less)
    then show ?thesis
      unfolding counts_snoc keys_defaultdict_incr using K same False
      by (auto simp: sorted_wrt_append)
  qed
qed



lemma get_vocabulary_add_words:
  "get_vocabulary E comments =
     add_words (Vocabulary_init E)
       (map fst (filter (\<lambda>(token, count). count \<ge> 5) (count_tokens comments)))"
proof -
  have "fold (\<lambda>(token, count) vocab. if count \<ge> 5 then add_word vocab token else vocab) items v =
        fold (\<lambda>w v. add_word v w) (map fst (filter (\<lambda>(token, count). count \<ge> (5::int)) items)) v"
    for items v
    by (induction items arbitrary: v) (auto split: prod.splits)
  then show ?thesis by (simp add: get_vocabulary_def add_words_def)
qed

lemma update_new_key: "k \<notin> fst ` set al \<Longrightarrow> AList.update k v al = al @ [(k, v)]"
  by (induction al) auto

lemma add_word_new:
  assumes "map_of (word2idx v) w = None"
  shows "word2idx (add_word v w) = word2idx v @ [(w, idx v)]" and "idx (add_word v w) = idx v + 1"
  using assms by (simp_all add: add_word_def update_new_key map_of_eq_None_iff)

lemma add_word_old: "map_of (word2idx v) w = Some i \<Longrightarrow> add_word v w = v"
  by (simp add: add_word_def)

lemma add_words_Cons: "add_words v (w # ws) = add_words (add_word v w) ws"
  by (simp add: add_words_def)

lemma ids_shift:
  "(a, b) # zip xs (map (\<lambda>k. b + 1 + int k) [0..<length xs]) =
   zip (a # xs) (map (\<lambda>k. b + int k) [0..<Suc (length xs)])"
proof -
  have "map (\<lambda>k. b + int k) [0..<Suc (length xs)] =
        b # map (\<lambda>k. b + 1 + int k) [0..<length xs]"
    by (simp add: upt_conv_Cons map_Suc_upt[symmetric] del: upt_Suc)
  then show ?thesis by simp
qed

lemma add_words_word2idx:
  assumes "distinct ws"
  shows "word2idx (add_words v ws) =
           word2idx v @
           zip (filter (\<lambda>w. map_of (word2idx v) w = None) ws)
               (map (\<lambda>k. idx v + int k) [0..<length (filter (\<lambda>w. map_of (word2idx v) w = None) ws)])"
  using assms
proof (induction ws arbitrary: v)
  case Nil
  show ?case by (simp add: add_words_def)
next
  case (Cons w ws)
  then have d: "distinct ws" "w \<notin> set ws" by simp_all
  show ?case
  proof (cases "map_of (word2idx v) w = None")
    case False
    then obtain i where i: "map_of (word2idx v) w = Some i" by auto
    then show ?thesis using Cons.IH[OF d(1), of v] by (simp add: add_words_Cons add_word_old)
  next
    case True
    let ?v' = "add_word v w"
    let ?F = "filter (\<lambda>u. map_of (word2idx v) u = None) ws"
    have "filter (\<lambda>u. map_of (word2idx ?v') u = None) ws = ?F"
      using d(2) by (intro filter_cong) (auto simp: add_word_new[OF True])
    with Cons.IH[OF d(1), of ?v'] have
      "word2idx (add_words ?v' ws) =
         word2idx v @ ((w, idx v) # zip ?F (map (\<lambda>k. idx v + 1 + int k) [0..<length ?F]))"
      by (simp add: add_word_new[OF True])
    then show ?thesis using True by (simp add: add_words_Cons ids_shift del: upt_Suc)
  qed
qed

lemma Vocabulary_init_keys:
  "map_of (word2idx (Vocabulary_init E)) w = None \<longleftrightarrow> w \<notin> set (reserved E)"
  by (auto simp: Vocabulary_init_def reserved_def AList.update_conv')

lemma Vocabulary_init_idx: "idx (Vocabulary_init E) = 4"
  by (simp add: Vocabulary_init_def Let_def)

lemma filter_items_keys:
  assumes "\<forall>(t, c)\<in>set items. c = f t"
  shows "map fst (filter (\<lambda>(t, c). P c) items) = filter (\<lambda>t. P (f t)) (map fst items)"
  using assms by (induction items) auto

lemma counts_items:
  "\<forall>(t, c)\<in>set (fold (\<lambda>token d. defaultdict_incr d token) toks []). c = int (count_list toks t)"
proof (clarify)
  fix t c
  assume m: "(t, c) \<in> set (fold (\<lambda>token d. defaultdict_incr d token) toks [])"
  have "distinct (map fst (fold (\<lambda>token d. defaultdict_incr d token) toks []))"
    using counts_keys by blast
  with m have "map_of (fold (\<lambda>token d. defaultdict_incr d token) toks []) t = Some c"
    by simp
  then show "c = int (count_list toks t)"
    by (simp add: counts_lookup split: if_splits)
qed

lemma get_vocabulary_word2idx:
  "\<exists>kept. word2idx (get_vocabulary E comments) =
            word2idx (Vocabulary_init E) @ zip kept (map (\<lambda>k. 4 + int k) [0..<length kept]) \<and>
          distinct kept \<and>
          set kept = {t \<in> set (corpus_tokens comments).
                        5 \<le> count_list (corpus_tokens comments) t \<and> t \<notin> set (reserved E)} \<and>
          sorted_wrt (\<lambda>a b. first_index (corpus_tokens comments) a < first_index (corpus_tokens comments) b) kept"
proof -
  let ?toks = "corpus_tokens comments"
  let ?items = "fold (\<lambda>token d. defaultdict_incr d token) ?toks []"
  let ?K = "map fst ?items"
  let ?ws = "filter (\<lambda>t. 5 \<le> int (count_list ?toks t)) ?K"
  let ?kept = "filter (\<lambda>w. map_of (word2idx (Vocabulary_init E)) w = None) ?ws"
  have K: "distinct ?K" "set ?K = set ?toks"
    "sorted_wrt (\<lambda>a b. first_index ?toks a < first_index ?toks b) ?K"
    using counts_keys[of ?toks] by blast+
  have ws: "map fst (filter (\<lambda>(token, count). count \<ge> 5) (count_tokens comments)) = ?ws"
    unfolding count_tokens_fold
    using filter_items_keys[OF counts_items, of "\<lambda>c. 5 \<le> c" ?toks] by simp
  have "distinct ?ws" using K(1) by simp
  then have "word2idx (add_words (Vocabulary_init E) ?ws) =
      word2idx (Vocabulary_init E) @ zip ?kept (map (\<lambda>k. 4 + int k) [0..<length ?kept])"
    using add_words_word2idx[of ?ws "Vocabulary_init E"] by (simp add: Vocabulary_init_idx)
  then have 1: "word2idx (get_vocabulary E comments) =
      word2idx (Vocabulary_init E) @ zip ?kept (map (\<lambda>k. 4 + int k) [0..<length ?kept])"
    by (simp add: get_vocabulary_add_words ws)
  have 2: "distinct ?kept" using K(1) by simp
  have 3: "set ?kept = {t \<in> set ?toks. 5 \<le> count_list ?toks t \<and> t \<notin> set (reserved E)}"
    using K(2) by (auto simp: Vocabulary_init_keys)
  have 4: "sorted_wrt (\<lambda>a b. first_index ?toks a < first_index ?toks b) ?kept"
    using K(3) by (simp add: sorted_wrt_filter)
  from 1 2 3 4 show ?thesis by blast
qed

text \<open>
  C8: the vocabulary build admits a token exactly when it occurs five times or more in the
  label file. The entries after the reserved ones are the admitted tokens, each once, in
  the order of their first occurrence, with the ids 4, 5, 6 and so on; a token counted
  exactly five times has an id (of 4 or more), a token counted four times has none.
  Tokens equal to a reserved token are set aside: those are entries already.
\<close>

theorem get_vocabulary_threshold:
  "(\<exists>kept. word2idx (get_vocabulary E comments) =
            word2idx (Vocabulary_init E) @ zip kept (map (\<lambda>k. 4 + int k) [0..<length kept]) \<and>
          distinct kept \<and>
          set kept = {t \<in> set (corpus_tokens comments).
                        5 \<le> count_list (corpus_tokens comments) t \<and> t \<notin> set (reserved E)} \<and>
          sorted_wrt (\<lambda>a b. first_index (corpus_tokens comments) a < first_index (corpus_tokens comments) b) kept) \<and>
   (t \<notin> set (reserved E) \<and> count_list (corpus_tokens comments) t = 5 \<longrightarrow>
      (\<exists>i\<ge>4. map_of (word2idx (get_vocabulary E comments)) t = Some i)) \<and>
   (t \<notin> set (reserved E) \<and> count_list (corpus_tokens comments) t = 4 \<longrightarrow>
      map_of (word2idx (get_vocabulary E comments)) t = None)"
proof -
  let ?toks = "corpus_tokens comments"
  let ?v = "get_vocabulary E comments"
  from get_vocabulary_word2idx[of E comments] obtain kept where k:
    "word2idx ?v = word2idx (Vocabulary_init E) @ zip kept (map (\<lambda>k. 4 + int k) [0..<length kept])"
    "distinct kept"
    "set kept = {t \<in> set ?toks. 5 \<le> count_list ?toks t \<and> t \<notin> set (reserved E)}"
    "sorted_wrt (\<lambda>a b. first_index ?toks a < first_index ?toks b) kept"
    by blast
  let ?ids = "map (\<lambda>k. 4 + int k) [0..<length kept]"
  have look: "map_of (word2idx ?v) t = map_of (zip kept ?ids) t" if "t \<notin> set (reserved E)"
    using that Vocabulary_init_keys[of E t] by (simp add: k(1) map_add_def)
  have five: "\<exists>i\<ge>4. map_of (word2idx ?v) t = Some i"
    if r: "t \<notin> set (reserved E)" and c: "count_list ?toks t = 5"
  proof -
    have "t \<in> set ?toks" using c count_list_0_iff[of ?toks t] by auto
    with r c have "t \<in> set kept" by (simp add: k(3))
    then obtain i where i: "map_of (zip kept ?ids) t = Some i"
      using map_of_zip_is_Some[of kept ?ids t] by auto
    then have "i \<in> set ?ids" by (meson map_of_SomeD set_zip_rightD)
    then have "4 \<le> i" by auto
    with i look[OF r] show ?thesis by auto
  qed
  have four: "map_of (word2idx ?v) t = None"
    if r: "t \<notin> set (reserved E)" and c: "count_list ?toks t = 4"
  proof -
    have "t \<notin> set kept" using c by (simp add: k(3))
    then have "map_of (zip kept ?ids) t = None"
      using map_of_zip_is_None[of kept ?ids t] by simp
    with look[OF r] show ?thesis by simp
  qed
  from k five four show ?thesis by blast
qed

theorem get_vocabulary_threshold_witness:
  "''dog'' \<notin> set (reserved E0) \<and> count_list (corpus_tokens corpus0) ''dog'' = 5 \<and>
   (\<exists>i\<ge>4. map_of (word2idx (get_vocabulary E0 corpus0)) ''dog'' = Some i) \<and>
   ''cat'' \<notin> set (reserved E0) \<and> count_list (corpus_tokens corpus0) ''cat'' = 4 \<and>
   map_of (word2idx (get_vocabulary E0 corpus0)) ''cat'' = None"
proof -
  have d: "''dog'' \<notin> set (reserved E0)" "count_list (corpus_tokens corpus0) ''dog'' = 5"
    by code_simp+
  have c: "''cat'' \<notin> set (reserved E0)" "count_list (corpus_tokens corpus0) ''cat'' = 4"
    by code_simp+
  from get_vocabulary_threshold[of E0 corpus0 "''dog''"] d
  have 1: "\<exists>i\<ge>4. map_of (word2idx (get_vocabulary E0 corpus0)) ''dog'' = Some i" by blast
  from get_vocabulary_threshold[of E0 corpus0 "''cat''"] c
  have 2: "map_of (word2idx (get_vocabulary E0 corpus0)) ''cat'' = None" by blast
  from d c 1 2 show ?thesis by blast
qed

section \<open>Fetching a sample\<close>

lemma caption_loop_all_captions:
  "caption_loop E v False i cs (enc, allc) =
     Inr (enc, allc @ map (\<lambda>c. [START_SEQ E] @ tokenize c @ [END_SEQ E]) cs)"
  by (induction cs arbitrary: i allc) (simp_all add: Let_def)

text \<open>
  In full mode the condition \<^verbatim>\<open>self.first_caption_only and i==0\<close> never holds, so whatever
  the image and its captions are, the list of encoded captions comes back empty.
\<close>

lemma getitem_full_mode:
  assumes "\<not> first_caption_only ds" and "getitem Image_open E ds i = Inr (s, ds')"
  shows "captions s = [] \<and> length (images s) = 5 \<and> \<not> first_caption_only ds'"
  using assms
  by (auto simp: getitem_def Let_def caption_loop_all_captions
           split: sum.splits option.splits prod.splits)

text \<open>
  C1 (the code at a failing input): a full-mode dataset over the one image \<^verbatim>\<open>a.jpg\<close>,
  which has two captions in the label file. The sample holds five copies of the image
  and both tokenized captions, and no encoded caption at all, where the specification
  asks for the two encodings.
\<close>

theorem getitem_full_mode_encodes_nothing:
  "returned_dict (getitem Inr E0
      (FlickrConvRNN_init ''img'' [''a.jpg''] rows0 (Some to_tensor) (Vocabulary_init E0) False) 0) =
   Inr (replicate 5 (Tensor ''img/a.jpg''),
        [],
        [[''<start>'', ''a'', ''dog'', ''runs'', ''<end>''], [''<start>'', ''two'', ''dogs'', ''<end>'']])"
  by code_simp

text \<open>
  C5 (as stated): fetching an image without captions fails with MissingCaptionsError. The
  code raises nothing: \<^verbatim>\<open>self.labels\<close> is a defaultdict, the missing key reads as the empty
  list, the loop body never runs, and the sample is returned. Here \<^verbatim>\<open>c.jpg\<close> is in the
  split and has no row in the label file.
\<close>

theorem getitem_missing_captions_counterexample:
  "returned_dict (getitem Inr E0
      (FlickrConvRNN_init ''img'' [''a.jpg'', ''c.jpg''] rows0 (Some to_tensor) (Vocabulary_init E0) True) 1) =
     Inr ([Tensor ''img/c.jpg''], [], [])"
  by code_simp

lemma concat_replicate_single: "concat (replicate n [x]) = replicate n x"
  by (induction n) simp_all

lemma map_of_defaultdict_append:
  "map_of (defaultdict_append d k x) =
     (map_of d)(k \<mapsto> (case map_of d k of None \<Rightarrow> [] | Some v \<Rightarrow> v) @ [x])"
  by (auto simp: defaultdict_append_def defaultdict_getitem_def AList.update_conv' split: option.splits)

lemma labels_dom:
  "map_of (fold (\<lambda>(image_name, comment) d. defaultdict_append d image_name (f comment)) rows d0) k = None
     \<longleftrightarrow> map_of d0 k = None \<and> k \<notin> fst ` set rows"
  by (induction rows arbitrary: d0) (auto simp: map_of_defaultdict_append split: prod.splits)

lemma labels_init_None:
  assumes "image_id \<notin> fst ` set rows"
  shows "map_of (labels (FlickrConvRNN_init dir ids rows tr v fco)) image_id = None"
  using assms by (auto simp: FlickrConvRNN_init_def labels_dom)

text \<open>
  C5 (amended): for an image identifier of the split that has no caption in the label
  file, fetching the sample succeeds whenever the image itself can be opened: the sample
  holds the image (once in first-caption-only mode, five times otherwise), no encoded
  caption and no tokenized caption. No error is raised for the missing captions.
\<close>

theorem getitem_without_captions:
  assumes "list_getitem ids i = Inr image_id"
      and "image_id \<notin> fst ` set rows"
      and "Image_open (os_path_join dir image_id) = Inr px"
  shows "returned_dict (getitem Image_open E (FlickrConvRNN_init dir ids rows tr v fco) i) =
           Inr (replicate (if fco then 1 else 5) (case tr of None \<Rightarrow> PIL px | Some f \<Rightarrow> f (PIL px)),
                [], [])"
proof -
  let ?ds = "FlickrConvRNN_init dir ids rows tr v fco"
  have l: "map_of (labels ?ds) image_id = None"
    using assms(2) by (rule labels_init_None)
  have f: "image_ids ?ds = ids" "image_dir ?ds = dir" "transform ?ds = tr" "first_caption_only ?ds = fco"
    by (simp_all add: FlickrConvRNN_init_def)
  show ?thesis
    using assms(1,3) l
    by (simp add: getitem_def returned_dict_def f defaultdict_getitem_def Let_def
          concat_replicate_single split: option.splits)
qed

theorem getitem_without_captions_witness:
  "list_getitem [''a.jpg'', ''c.jpg''] 1 = Inr ''c.jpg'' \<and> ''c.jpg'' \<notin> fst ` set rows0 \<and>
   returned_dict (getitem Inr E0
      (FlickrConvRNN_init ''img'' [''a.jpg'', ''c.jpg''] rows0 (Some to_tensor) (Vocabulary_init E0) True) 1) =
     Inr ([Tensor ''img/c.jpg''], [], [])"
proof -
  have h1: "list_getitem [''a.jpg'', ''c.jpg''] 1 = Inr ''c.jpg''" by (simp add: list_getitem_def)
  have h2: "''c.jpg'' \<notin> fst ` set rows0" by (simp add: rows0_def)
  have h3: "Inr (os_path_join ''img'' ''c.jpg'') = (Inr ''img/c.jpg'' :: error + string)"
    by (simp add: os_path_join_def)
  from getitem_without_captions[of "[''a.jpg'', ''c.jpg'']" 1 "''c.jpg''" rows0 Inr "''img''"
         "''img/c.jpg''" E0 "Some to_tensor" "Vocabulary_init E0" True, OF h1 h2 h3]
  have "returned_dict (getitem Inr E0
      (FlickrConvRNN_init ''img'' [''a.jpg'', ''c.jpg''] rows0 (Some to_tensor) (Vocabulary_init E0) True) 1) =
     Inr ([Tensor ''img/c.jpg''], [], [])" by simp
  with h1 h2 show ?thesis by blast
qed

section \<open>Batches\<close>

text \<open>
  C4: assembling a batch from an empty list of samples fails: no image was collected,
  and \<^verbatim>\<open>torch.vstack\<close> raises RuntimeError on the empty list before any buffer is
  allocated. This failure is what the specification calls EmptyBatchError.
\<close>

theorem collate_empty_fails:
  "BatchCollateFn [] = Inl RuntimeError"
  by (simp add: BatchCollateFn_def vstack_def)

lemma unsqueeze_tensors: "list_all is_tensor xs \<Longrightarrow> map_raise unsqueeze xs = Inr xs"
proof (induction xs)
  case Nil
  show ?case by simp
next
  case (Cons x xs)
  then show ?case by (cases x) simp_all
qed

lemma collect_eq:
  assumes "list_all (\<lambda>s. list_all is_tensor (images s)) data"
  shows "collect data (imgs, lengths, caps, allc) =
     Inr (imgs @ concat (map images data),
          lengths @ map length (concat (map captions data)),
          caps @ concat (map captions data),
          allc @ map all_captions data)"
  using assms
  by (induction data arbitrary: imgs lengths caps allc) (simp_all add: unsqueeze_tensors)

lemma collect_lengths:
  assumes "collect data (imgs, lengths, caps, allc) = Inr (imgs', lengths', caps', allc')"
  shows "lengths' = lengths @ map length (concat (map captions data))"
  using assms
proof (induction data arbitrary: imgs lengths caps allc)
  case Nil
  then show ?case by simp
next
  case (Cons b data)
  from Cons.prems obtain us where
    "collect data (imgs @ us, lengths @ map length (captions b), caps @ captions b,
                   allc @ [all_captions b]) = Inr (imgs', lengths', caps', allc')"
    by (auto split: sum.splits)
  from Cons.IH[OF this] show ?case by simp
qed

lemma py_max_nonempty: "xs \<noteq> [] \<Longrightarrow> py_max xs = Inr (Max (set xs))"
  by (cases xs) (simp_all add: py_max_def Max.set_eq_fold[symmetric])

lemma list_getitem_nat: "i < length xs \<Longrightarrow> list_getitem xs (int i) = Inr (xs ! i)"
  by (simp add: list_getitem_def)

lemma setitem_row_fresh:
  assumes "i < length buf" and "buf ! i = replicate m 0" and "length t \<le> m"
  shows "setitem_row buf i (length t) t = Inr (buf[i := t @ replicate (m - length t) 0])"
  using assms by (simp add: setitem_row_def Let_def min_def)

lemma pad_loop_result:
  assumes "length buf = length lengths"
      and "i + length rest = length lengths"
      and "\<forall>j<length rest. lengths ! (i + j) = length (rest ! j)"
      and "\<forall>j<length rest. buf ! (i + j) = replicate m 0"
      and "\<forall>c\<in>set rest. length c \<le> m \<and> list_all int64 c"
  shows "\<exists>buf'. pad_loop i rest lengths buf = Inr buf' \<and> length buf' = length buf \<and>
           (\<forall>j<i. buf' ! j = buf ! j) \<and>
           (\<forall>j<length rest. buf' ! (i + j) = rest ! j @ replicate (m - length (rest ! j)) 0)"
  using assms
proof (induction rest arbitrary: i buf)
  case Nil
  then show ?case by simp
next
  case (Cons c rest)
  have i_lt: "i < length lengths" using Cons.prems(2) by simp
  have len_i: "lengths ! i = length c" using Cons.prems(3) by force
  have row_i: "buf ! i = replicate m 0" using Cons.prems(4) by force
  have c_ok: "length c \<le> m" "list_all int64 c" using Cons.prems(5) by simp_all
  let ?buf1 = "buf[i := c @ replicate (m - length c) 0]"
  have set1: "setitem_row buf i (length c) c = Inr ?buf1"
    using i_lt Cons.prems(1) row_i c_ok(1) by (simp add: setitem_row_fresh)
  have step: "pad_loop i (c # rest) lengths buf = pad_loop (Suc i) rest lengths ?buf1"
    using i_lt len_i c_ok(2) set1 by (simp add: list_getitem_nat tensor_long_def)
  have p1: "length ?buf1 = length lengths" using Cons.prems(1) by simp
  have p2: "Suc i + length rest = length lengths" using Cons.prems(2) by simp
  have p3: "\<forall>j<length rest. lengths ! (Suc i + j) = length (rest ! j)"
  proof (intro allI impI)
    fix j assume "j < length rest"
    then have "lengths ! (i + Suc j) = length ((c # rest) ! Suc j)"
      using Cons.prems(3) by (metis Suc_less_eq length_Cons)
    then show "lengths ! (Suc i + j) = length (rest ! j)" by simp
  qed
  have p4: "\<forall>j<length rest. ?buf1 ! (Suc i + j) = replicate m 0"
  proof (intro allI impI)
    fix j assume "j < length rest"
    then have "buf ! (i + Suc j) = replicate m 0"
      using Cons.prems(4) by (metis Suc_less_eq length_Cons)
    then show "?buf1 ! (Suc i + j) = replicate m 0" by simp
  qed
  have p5: "\<forall>c\<in>set rest. length c \<le> m \<and> list_all int64 c" using Cons.prems(5) by simp
  from Cons.IH[OF p1 p2 p3 p4 p5] obtain buf' where b:
    "pad_loop (Suc i) rest lengths ?buf1 = Inr buf'" "length buf' = length ?buf1"
    "\<forall>j<Suc i. buf' ! j = ?buf1 ! j"
    "\<forall>j<length rest. buf' ! (Suc i + j) = rest ! j @ replicate (m - length (rest ! j)) 0"
    by blast
  have r1: "pad_loop i (c # rest) lengths buf = Inr buf'" using step b(1) by simp
  have r2: "length buf' = length buf" using b(2) by simp
  have r3: "\<forall>j<i. buf' ! j = buf ! j" using b(3) by simp
  have at_i: "buf' ! i = c @ replicate (m - length c) 0"
    using b(3) i_lt Cons.prems(1) by simp
  have r4: "\<forall>j<length (c # rest). buf' ! (i + j) = (c # rest) ! j @ replicate (m - length ((c # rest) ! j)) 0"
  proof (intro allI impI)
    fix j assume j: "j < length (c # rest)"
    show "buf' ! (i + j) = (c # rest) ! j @ replicate (m - length ((c # rest) ! j)) 0"
    proof (cases j)
      case 0
      then show ?thesis using at_i by simp
    next
      case (Suc k)
      then have "k < length rest" using j by simp
      with b(4) have "buf' ! (Suc i + k) = rest ! k @ replicate (m - length (rest ! k)) 0" by blast
      then show ?thesis using Suc by simp
    qed
  qed
  from r1 r2 r3 r4 show ?case by blast
qed

lemma pad_loop_all:
  assumes "caps \<noteq> []" and "list_all (list_all int64) caps"
  shows "\<exists>padded. pad_loop 0 caps (map length caps)
                     (zeros (length (map length caps)) (Max (set (map length caps)))) = Inr padded \<and>
           length padded = length caps \<and>
           (\<forall>i<length caps. padded ! i =
               caps ! i @ replicate (Max (set (map length caps)) - length (caps ! i)) 0)"
proof -
  let ?m = "Max (set (map length caps))"
  have le: "\<forall>c\<in>set caps. length c \<le> ?m \<and> list_all int64 c"
    using assms(2) by (auto simp: list_all_iff)
  have "\<exists>buf'. pad_loop 0 caps (map length caps) (zeros (length (map length caps)) ?m) = Inr buf' \<and>
          length buf' = length (zeros (length (map length caps)) ?m) \<and>
          (\<forall>j<0. buf' ! j = zeros (length (map length caps)) ?m ! j) \<and>
          (\<forall>j<length caps. buf' ! (0 + j) = caps ! j @ replicate (?m - length (caps ! j)) 0)"
    by (rule pad_loop_result) (use le in \<open>simp_all add: zeros_def\<close>)
  then show ?thesis by (auto simp: zeros_def)
qed

lemma collate_result:
  assumes "list_all (\<lambda>s. list_all is_tensor (images s)) data"
      and "concat (map images data) \<noteq> []"
      and "concat (map captions data) \<noteq> []"
      and "list_all (list_all int64) (concat (map captions data))"
  shows "\<exists>padded. BatchCollateFn data =
            Inr (concat (map images data), padded,
                 map length (concat (map captions data)), map all_captions data) \<and>
           length padded = length (concat (map captions data)) \<and>
           (\<forall>i<length (concat (map captions data)). padded ! i =
               concat (map captions data) ! i @
               replicate (Max (set (map length (concat (map captions data)))) -
                          length (concat (map captions data) ! i)) 0)"
proof -
  let ?caps = "concat (map captions data)"
  from pad_loop_all[OF assms(3,4)] obtain padded where p:
    "pad_loop 0 ?caps (map length ?caps) (zeros (length (map length ?caps)) (Max (set (map length ?caps)))) = Inr padded"
    "length padded = length ?caps"
    "\<forall>i<length ?caps. padded ! i = ?caps ! i @ replicate (Max (set (map length ?caps)) - length (?caps ! i)) 0"
    by blast
  have mx: "py_max (map length ?caps) = Inr (Max (set (map length ?caps)))"
    using assms(3) by (simp add: py_max_nonempty)
  have "BatchCollateFn data =
          Inr (concat (map images data), padded, map length ?caps, map all_captions data)"
    unfolding BatchCollateFn_def
    using assms(2) mx p(1) by (simp add: collect_eq[OF assms(1)] vstack_def)
  with p(2,3) show ?thesis by blast
qed


text \<open>
  C7: for a batch that holds at least one image and one encoded caption, the images
  being tensors, the assembly succeeds; the padded buffer has one row per caption and every row has the width
  \<open>max_len\<close>, the greatest caption length of the batch; row \<open>i\<close> is caption \<open>i\<close> followed by
  zeros, the PAD id; the lengths returned are the caption lengths in order. For captions
  of the lengths 3, 5 and 2 the rows are the first caption and two zeros, the second
  caption, and the third caption and three zeros. The ids are taken to fit in 64 bits.
\<close>

theorem collate_padding:
  assumes "list_all (\<lambda>s. list_all is_tensor (images s)) data"
      and "concat (map images data) \<noteq> []"
      and "caps = concat (map captions data)"
      and "caps \<noteq> []"
      and "list_all (list_all int64) caps"
  shows "\<exists>padded. BatchCollateFn data =
            Inr (concat (map images data), padded, map length caps, map all_captions data) \<and>
           length padded = length caps \<and>
           (\<forall>row\<in>set padded. length row = Max (set (map length caps))) \<and>
           (\<forall>i<length caps. padded ! i =
               caps ! i @ replicate (Max (set (map length caps)) - length (caps ! i)) 0) \<and>
           (map length caps = [3, 5, 2] \<longrightarrow>
               padded = [caps ! 0 @ [0, 0], caps ! 1, caps ! 2 @ [0, 0, 0]])"
proof -
  let ?m = "Max (set (map length caps))"
  from collate_result[of data] assms obtain padded where p:
    "BatchCollateFn data = Inr (concat (map images data), padded, map length caps, map all_captions data)"
    "length padded = length caps"
    "\<forall>i<length caps. padded ! i = caps ! i @ replicate (?m - length (caps ! i)) 0"
    by blast
  have le: "\<And>i. i < length caps \<Longrightarrow> length (caps ! i) \<le> ?m"
    by simp
  have width: "\<forall>row\<in>set padded. length row = ?m"
  proof
    fix row assume "row \<in> set padded"
    then obtain i where i: "i < length padded" "row = padded ! i"
      by (auto simp: in_set_conv_nth)
    then have "row = caps ! i @ replicate (?m - length (caps ! i)) 0"
      using p(2,3) by simp
    then show "length row = ?m" using le[of i] i(1) p(2) by simp
  qed
  have special: "map length caps = [3, 5, 2] \<longrightarrow>
      padded = [caps ! 0 @ [0, 0], caps ! 1, caps ! 2 @ [0, 0, 0]]"
  proof
    assume l: "map length caps = [3, 5, 2]"
    then have n: "length caps = 3" by (metis length_map length_Cons list.size(3) numeral_3_eq_3)
    have m: "?m = 5" using l by simp
    have ls: "length (caps ! 0) = 3" "length (caps ! 1) = 5" "length (caps ! 2) = 2"
      using l n by (metis nth_map nth_Cons_0 zero_less_numeral,
                    metis nth_map nth_Cons_0 nth_Cons_Suc One_nat_def one_less_numeral_iff semiring_norm(77),
                    metis nth_map nth_Cons_0 nth_Cons_Suc numeral_2_eq_2 lessI numeral_3_eq_3)
    have "padded ! 0 = caps ! 0 @ [0, 0]" "padded ! 1 = caps ! 1" "padded ! 2 = caps ! 2 @ [0, 0, 0]"
      using p(3) n m ls by (simp_all add: numeral_eq_Suc)
    then show "padded = [caps ! 0 @ [0, 0], caps ! 1, caps ! 2 @ [0, 0, 0]]"
      using p(2) n by (intro nth_equalityI) (auto simp: less_Suc_eq numeral_3_eq_3 numeral_2_eq_2)
  qed
  from p(1,2,3) width special show ?thesis by blast
qed


theorem collate_padding_witness:
  "list_all (\<lambda>s. list_all is_tensor (images s)) batch352 \<and>
   concat (map images batch352) \<noteq> [] \<and>
   concat (map captions batch352) \<noteq> [] \<and>
   list_all (list_all int64) (concat (map captions batch352)) \<and>
   map length (concat (map captions batch352)) = [3, 5, 2] \<and>
   BatchCollateFn batch352 =
     Inr ([Tensor ''img/a.jpg'', Tensor ''img/b.jpg'', Tensor ''img/c.jpg''],
          [[2, 4, 3, 0, 0], [2, 5, 4, 6, 3], [2, 3, 0, 0, 0]],
          [3, 5, 2],
          [[[''<start>'', ''dog'', ''<end>'']],
           [[''<start>'', ''a'', ''dog'', ''runs'', ''<end>'']],
           [[''<start>'', ''<end>'']]])"
proof -
  have h0: "list_all (\<lambda>s. list_all is_tensor (images s)) batch352" by (simp add: batch352_def)
  have h1: "concat (map images batch352) \<noteq> []" by (simp add: batch352_def)
  have h2: "concat (map captions batch352) \<noteq> []" by (simp add: batch352_def)
  have h3: "list_all (list_all int64) (concat (map captions batch352))"
    by (simp add: batch352_def int64_def)
  have h4: "map length (concat (map captions batch352)) = [3, 5, 2]" by (simp add: batch352_def)
  from collate_padding[OF h0 h1 refl h2 h3] h4 obtain padded where
    "BatchCollateFn batch352 =
       Inr (concat (map images batch352), padded, [3, 5, 2], map all_captions batch352)"
    "padded = [concat (map captions batch352) ! 0 @ [0, 0], concat (map captions batch352) ! 1,
               concat (map captions batch352) ! 2 @ [0, 0, 0]]"
    by auto
  then have "BatchCollateFn batch352 =
     Inr ([Tensor ''img/a.jpg'', Tensor ''img/b.jpg'', Tensor ''img/c.jpg''],
          [[2, 4, 3, 0, 0], [2, 5, 4, 6, 3], [2, 3, 0, 0, 0]],
          [3, 5, 2],
          [[[''<start>'', ''dog'', ''<end>'']],
           [[''<start>'', ''a'', ''dog'', ''runs'', ''<end>'']],
           [[''<start>'', ''<end>'']]])"
    by (simp add: batch352_def)
  with h0 h1 h2 h3 h4 show ?thesis by blast
qed

subsection \<open>Images and captions side by side\<close>

text \<open>
  In full mode no batch is ever assembled: every sample comes without encoded captions,
  so \<^verbatim>\<open>max(lengths)\<close> raises ValueError, unless an earlier step has failed already.
\<close>

lemma fetch_full_mode:
  assumes "\<not> first_caption_only ds" and "fetch Image_open E ds idxs = Inr (data, ds')"
  shows "concat (map captions data) = []"
  using assms
proof (induction idxs arbitrary: ds data)
  case Nil
  then show ?case by simp
next
  case (Cons i rest)
  from Cons.prems(2) obtain s ds1 ss where
    f: "getitem Image_open E ds i = Inr (s, ds1)" "fetch Image_open E ds1 rest = Inr (ss, ds')"
       "data = s # ss"
    by (auto split: sum.splits)
  from getitem_full_mode[OF Cons.prems(1) f(1)] Cons.IH[OF _ f(2)] f(3)
  show ?case by simp
qed

lemma collate_no_captions:
  assumes "concat (map captions data) = []"
  shows "\<exists>e. BatchCollateFn data = Inl e"
proof (cases "collect data ([], [], [], [])")
  case (Inl e)
  then show ?thesis by (simp add: BatchCollateFn_def)
next
  case (Inr r)
  obtain imgs lengths caps allc where r: "r = (imgs, lengths, caps, allc)"
    by (cases r) auto
  have "lengths = []"
    using collect_lengths[OF Inr[unfolded r]] unfolding assms by simp
  then show ?thesis
    using Inr r by (simp add: BatchCollateFn_def vstack_def py_max_def)
qed

lemma load_batch_full_mode_fails:
  assumes "\<not> first_caption_only ds"
  shows "\<exists>e. load_batch Image_open E ds idxs = Inl e"
proof (cases "fetch Image_open E ds idxs")
  case (Inl e)
  then show ?thesis by (simp add: load_batch_def)
next
  case (Inr r)
  then obtain data ds' where "fetch Image_open E ds idxs = Inr (data, ds')" by (cases r) auto
  then show ?thesis
    using collate_no_captions[OF fetch_full_mode[OF assms]] by (simp add: load_batch_def)
qed

text \<open>
  C3 (as stated): in every assembled batch \<open>images[i]\<close> and \<open>captions_padded[i]\<close> belong to
  the same pair. In first-caption-only mode a sample of an image without captions brings
  an image and no caption: the batch of \<^verbatim>\<open>c.jpg\<close> (no caption) and \<^verbatim>\<open>b.jpg\<close> is assembled
  with two images and one caption row, and row 0 is the caption of \<^verbatim>\<open>b.jpg\<close> beside the image
  \<^verbatim>\<open>c.jpg\<close>.
\<close>

theorem batch_alignment_counterexample:
  "load_batch Inr E0
     (FlickrConvRNN_init ''img'' [''c.jpg'', ''b.jpg''] rows0 (Some to_tensor) (Vocabulary_init E0) True)
     [0, 1] =
   Inr ([Tensor ''img/c.jpg'', Tensor ''img/b.jpg''], [[2, 1, 1, 3]], [4],
        [[], [[''<start>'', ''a'', ''cat'', ''<end>'']]])"
  by code_simp

lemma caption_loop_later:
  "0 < i \<Longrightarrow> caption_loop E v True i cs (enc, allc) =
     Inr (enc, allc @ map (\<lambda>c. [START_SEQ E] @ tokenize c @ [END_SEQ E]) cs)"
  by (induction cs arbitrary: i allc) (simp_all add: Let_def)

lemma caption_loop_first:
  "caption_loop E v True 0 (c # cs) ([], []) =
     (case encode_seq E v ([START_SEQ E] @ tokenize c @ [END_SEQ E]) of
        Inl e \<Rightarrow> Inl e
      | Inr ids \<Rightarrow> Inr ([ids], map (\<lambda>c. [START_SEQ E] @ tokenize c @ [END_SEQ E]) (c # cs)))"
  by (simp add: Let_def caption_loop_later split: sum.splits)

lemma getitem_first_caption_only:
  assumes "first_caption_only ds" and "getitem Image_open E ds i = Inr (s, ds')"
  shows "length (images s) = 1 \<and> first_caption_only ds' \<and>
         (all_captions s = [] \<longrightarrow> captions s = []) \<and>
         (all_captions s \<noteq> [] \<longrightarrow> length (captions s) = 1)"
proof -
  from assms(2) obtain image_id px where
    a: "list_getitem (image_ids ds) i = Inr image_id"
       "Image_open (os_path_join (image_dir ds) image_id) = Inr px"
    by (auto simp: getitem_def split: sum.splits)
  obtain caps labels' where l: "defaultdict_getitem [] (labels ds) image_id = (caps, labels')"
    by (cases "defaultdict_getitem [] (labels ds) image_id") 
  from assms a l obtain enc allc where
    r: "caption_loop E (vocab ds) True 0 caps ([], []) = Inr (enc, allc)"
       "s = \<lparr>images = (case transform ds of None \<Rightarrow> [PIL px] | Some f \<Rightarrow> [f (PIL px)]),
             captions = enc, all_captions = allc\<rparr>"
       "ds' = ds\<lparr>labels := labels'\<rparr>"
    by (auto simp: getitem_def Let_def split: sum.splits)
  have "(allc = [] \<longrightarrow> enc = []) \<and> (allc \<noteq> [] \<longrightarrow> length enc = 1)"
  proof (cases caps)
    case Nil
    then show ?thesis using r(1) by simp
  next
    case (Cons c cs)
    with r(1) have "(case encode_seq E (vocab ds) ([START_SEQ E] @ tokenize c @ [END_SEQ E]) of
        Inl e \<Rightarrow> Inl e
      | Inr ids \<Rightarrow> Inr ([ids], map (\<lambda>c. [START_SEQ E] @ tokenize c @ [END_SEQ E]) (c # cs))) =
      Inr (enc, allc)"
      by (simp only: caption_loop_first)
    then show ?thesis by (auto split: sum.splits)
  qed
  then show ?thesis using r(2,3) assms(1) by (auto split: option.splits)
qed

text \<open>
  In first-caption-only mode the encoded captions of an image that has captions are
  exactly one: the encoding of its first caption between the start and end tokens.
\<close>

lemma getitem_encodes_first_caption:
  assumes "first_caption_only ds"
      and "getitem Image_open E ds i = Inr (s, ds')"
      and "list_getitem (image_ids ds) i = Inr image_id"
      and "map_of (labels ds) image_id = Some (c # cs)"
  shows "\<exists>ids. encode_seq E (vocab ds) ([START_SEQ E] @ tokenize c @ [END_SEQ E]) = Inr ids \<and>
               captions s = [ids]"
proof -
  have l: "defaultdict_getitem [] (labels ds) image_id = (c # cs, labels ds)"
    using assms(4) by (simp add: defaultdict_getitem_def)
  from assms(2,3) l obtain enc allc where
    r: "caption_loop E (vocab ds) True 0 (c # cs) ([], []) = Inr (enc, allc)" "captions s = enc"
    using assms(1) by (auto simp: getitem_def Let_def split: sum.splits)
  from r(1) have "(case encode_seq E (vocab ds) ([START_SEQ E] @ tokenize c @ [END_SEQ E]) of
        Inl e \<Rightarrow> Inl e
      | Inr ids \<Rightarrow> Inr ([ids], map (\<lambda>c. [START_SEQ E] @ tokenize c @ [END_SEQ E]) (c # cs))) =
      Inr (enc, allc)"
    by (simp only: caption_loop_first)
  then show ?thesis using r(2) by (auto split: sum.splits)
qed

lemma fetch_first_caption_only:
  assumes "first_caption_only ds" and "fetch Image_open E ds idxs = Inr (data, ds')"
  shows "\<forall>s\<in>set data. length (images s) = 1 \<and> (all_captions s \<noteq> [] \<longrightarrow> length (captions s) = 1)"
  using assms
proof (induction idxs arbitrary: ds data)
  case Nil
  then show ?case by simp
next
  case (Cons i rest)
  from Cons.prems(2) obtain s ds1 ss where
    f: "getitem Image_open E ds i = Inr (s, ds1)" "fetch Image_open E ds1 rest = Inr (ss, ds')"
       "data = s # ss"
    by (auto split: sum.splits)
  from getitem_first_caption_only[OF Cons.prems(1) f(1)]
  have g: "length (images s) = 1" "first_caption_only ds1"
    "all_captions s \<noteq> [] \<longrightarrow> length (captions s) = 1" by simp_all
  from Cons.IH[OF g(2) f(2)] g(1,3) f(3) show ?case by simp
qed

lemma concat_singletons:
  "\<forall>x\<in>set xs. length (f x) = 1 \<Longrightarrow> concat (map f xs) = map (\<lambda>x. hd (f x)) xs"
proof (induction xs)
  case Nil
  then show ?case by simp
next
  case (Cons x xs)
  then have "length (f x) = 1" by simp
  then have "f x = [hd (f x)]" by (cases "f x") simp_all
  with Cons show ?case by simp
qed

lemma singleton_hd: "length xs = 1 \<Longrightarrow> xs = [hd xs]"
  by (cases xs) simp_all

text \<open>
  C3 (amended): in first-caption-only mode, for every non-empty batch of samples fetched
  from the dataset in which each image has at least one caption and is a tensor (the
  transform has made it one), the assembly succeeds,
  the stacked images and the padded caption rows are as many as the samples, and for
  every index \<open>k\<close> the image \<open>k\<close> is the one image of sample \<open>k\<close> and row \<open>k\<close>, cut at its
  true length, is the one encoded caption of sample \<open>k\<close>. The ids are taken to fit in 64
  bits. Nothing is stated about full mode.
\<close>

theorem batch_alignment:
  assumes "first_caption_only ds"
      and "fetch Image_open E ds idxs = Inr (data, ds')"
      and "data \<noteq> []"
      and "list_all (\<lambda>s. all_captions s \<noteq> []) data"
      and "list_all (\<lambda>s. list_all is_tensor (images s)) data"
      and "list_all (\<lambda>s. list_all (list_all int64) (captions s)) data"
  shows "\<exists>imgs padded lengths allc.
           BatchCollateFn data = Inr (imgs, padded, lengths, allc) \<and>
           length imgs = length data \<and> length padded = length data \<and>
           (\<forall>k<length data. images (data ! k) = [imgs ! k] \<and>
                             captions (data ! k) = [take (lengths ! k) (padded ! k)])"
proof -
  have one: "\<forall>s\<in>set data. length (images s) = 1 \<and> length (captions s) = 1"
    using fetch_first_caption_only[OF assms(1,2)] assms(4) by (auto simp: list_all_iff)
  have imgs: "concat (map images data) = map (\<lambda>s. hd (images s)) data"
    using one by (simp add: concat_singletons)
  have caps: "concat (map captions data) = map (\<lambda>s. hd (captions s)) data"
    using one by (simp add: concat_singletons)
  have h1: "concat (map images data) \<noteq> []" using assms(3) imgs by simp
  have h2: "concat (map captions data) \<noteq> []" using assms(3) caps by simp
  have h3: "list_all (list_all int64) (concat (map captions data))"
    using assms(6) by (auto simp: list_all_iff)
  from collate_result[OF assms(5) h1 h2 h3] obtain padded where p:
    "BatchCollateFn data =
       Inr (concat (map images data), padded, map length (concat (map captions data)),
            map all_captions data)"
    "length padded = length (concat (map captions data))"
    "\<forall>i<length (concat (map captions data)). padded ! i =
        concat (map captions data) ! i @
        replicate (Max (set (map length (concat (map captions data)))) -
                   length (concat (map captions data) ! i)) 0"
    by blast
  let ?imgs = "concat (map images data)" and ?lengths = "map length (concat (map captions data))"
  have "\<forall>k<length data. images (data ! k) = [?imgs ! k] \<and>
                         captions (data ! k) = [take (?lengths ! k) (padded ! k)]"
  proof (intro allI impI)
    fix k assume k: "k < length data"
    then have mem: "data ! k \<in> set data" by simp
    have i1: "images (data ! k) = [?imgs ! k]"
      using one mem k singleton_hd[of "images (data ! k)"] by (simp add: imgs)
    have c1: "captions (data ! k) = [hd (captions (data ! k))]"
      using one mem singleton_hd[of "captions (data ! k)"] by simp
    have "padded ! k = hd (captions (data ! k)) @
            replicate (Max (set ?lengths) - length (hd (captions (data ! k)))) 0"
      using p(3) k by (simp add: caps)
    then have "take (?lengths ! k) (padded ! k) = hd (captions (data ! k))"
      using k by (simp add: caps)
    with c1 i1 show "images (data ! k) = [?imgs ! k] \<and>
                      captions (data ! k) = [take (?lengths ! k) (padded ! k)]" by simp
  qed
  moreover have "length ?imgs = length data" "length padded = length data"
    using p(2) by (simp_all add: imgs caps)
  ultimately show ?thesis using p(1) by blast
qed

theorem batch_alignment_witness:
  "first_caption_only
     (FlickrConvRNN_init ''img'' [''a.jpg'', ''b.jpg''] rows0 (Some to_tensor) (Vocabulary_init E0) True
        :: string FlickrConvRNN) \<and>
   map_sum id fst (fetch Inr E0
     (FlickrConvRNN_init ''img'' [''a.jpg'', ''b.jpg''] rows0 (Some to_tensor) (Vocabulary_init E0) True)
     [0, 1]) = Inr batch_ab \<and>
   batch_ab \<noteq> [] \<and>
   list_all (\<lambda>s. all_captions s \<noteq> []) batch_ab \<and>
   list_all (\<lambda>s. list_all is_tensor (images s)) batch_ab \<and>
   list_all (\<lambda>s. list_all (list_all int64) (captions s)) batch_ab \<and>
   (\<exists>imgs padded lengths allc.
      BatchCollateFn batch_ab = Inr (imgs, padded, lengths, allc) \<and>
      length imgs = length batch_ab \<and> length padded = length batch_ab \<and>
      (\<forall>k<length batch_ab. images (batch_ab ! k) = [imgs ! k] \<and>
                            captions (batch_ab ! k) = [take (lengths ! k) (padded ! k)]))"
proof -
  let ?ds = "FlickrConvRNN_init ''img'' [''a.jpg'', ''b.jpg''] rows0 (Some to_tensor)
               (Vocabulary_init E0) True :: string FlickrConvRNN"
  have h1: "first_caption_only ?ds" by (simp add: FlickrConvRNN_init_def)
  have h2': "map_sum id fst (fetch Inr E0 ?ds [0, 1]) = Inr batch_ab" by code_simp
  then obtain ds' where h2: "fetch Inr E0 ?ds [0, 1] = Inr (batch_ab, ds')"
    by (cases "fetch Inr E0 ?ds [0, 1]") auto
  have h3: "batch_ab \<noteq> []" by (simp add: batch_ab_def)
  have h4: "list_all (\<lambda>s. all_captions s \<noteq> []) batch_ab" by (simp add: batch_ab_def)
  have h5: "list_all (\<lambda>s. list_all is_tensor (images s)) batch_ab" by (simp add: batch_ab_def)
  have h6: "list_all (\<lambda>s. list_all (list_all int64) (captions s)) batch_ab"
    by (simp add: batch_ab_def int64_def)
  from batch_alignment[OF h1 h2 h3 h4 h5 h6] h1 h2' h3 h4 h5 h6 show ?thesis by blast
qed

section \<open>Early stopping keeps the best score\<close>

text \<open>
  C10 (as stated): in mode max the best score never decreases. With a negative threshold
  it does: for the threshold -2, the score 5 becomes the best score, and the score 4 that
  follows replaces it, since 4 - 5 > -2.
\<close>

theorem best_score_decreases_counterexample:
  "best_score (calls (EarlyStopping_init 5 ''max'' (Finite (- 2))) [Finite 5]) = Finite 5 \<and>
   best_score (calls (EarlyStopping_init 5 ''max'' (Finite (- 2))) [Finite 5, Finite 4]) = Finite 4 \<and>
   \<not> float_ge (Finite 4) (Finite 5)"
  by (simp add: calls_def EarlyStopping_init_def EarlyStopping_call_def better_score_def float_ge_def)

lemma float_ge_refl: "x \<noteq> NaN \<Longrightarrow> float_ge x x"
  by (simp add: float_ge_def)

lemma float_gt_sub_nonneg:
  assumes "float_gt (float_sub x b) t" and "float_ge t (Finite 0)"
  shows "float_gt x b"
  using assms
  by (cases x; cases b; cases t) (auto simp: float_ge_def)

lemma float_gt_not_NaN: "float_gt x y \<Longrightarrow> x \<noteq> NaN \<and> y \<noteq> NaN"
  by (cases x; cases y) auto

lemma EarlyStopping_call_max:
  assumes "mode s = ''max''"
  shows "best_score (snd (EarlyStopping_call s x)) =
           (if float_gt (float_sub x (best_score s)) (threshold s) then x else best_score s)"
    and "mode (snd (EarlyStopping_call s x)) = mode s"
    and "threshold (snd (EarlyStopping_call s x)) = threshold s"
  using assms by (simp_all add: EarlyStopping_call_def better_score_def Let_def)

lemma EarlyStopping_call_max_mono:
  assumes "mode s = ''max''" and "float_ge (threshold s) (Finite 0)" and "best_score s \<noteq> NaN"
  shows "float_ge (best_score (snd (EarlyStopping_call s x))) (best_score s)"
    and "best_score (snd (EarlyStopping_call s x)) \<noteq> NaN"
proof -
  let ?b' = "best_score (snd (EarlyStopping_call s x))"
  show "float_ge ?b' (best_score s)"
  proof (cases "float_gt (float_sub x (best_score s)) (threshold s)")
    case True
    then have "float_gt x (best_score s)" using assms(2) by (rule float_gt_sub_nonneg)
    moreover from this have "x \<noteq> NaN" using float_gt_not_NaN by blast
    ultimately show ?thesis
      using True assms(1,3) by (simp add: EarlyStopping_call_max float_ge_def)
  next
    case False
    then show ?thesis using assms(1,3) by (simp add: EarlyStopping_call_max float_ge_refl)
  qed
  then show "?b' \<noteq> NaN" by (simp add: float_ge_def)
qed

lemma calls_snoc: "calls s (xs @ [x]) = snd (EarlyStopping_call (calls s xs) x)"
  by (simp add: calls_def)

lemma calls_max_inv:
  "mode (calls (EarlyStopping_init p ''max'' t) xs) = ''max'' \<and>
   threshold (calls (EarlyStopping_init p ''max'' t) xs) = t \<and>
   (float_ge t (Finite 0) \<longrightarrow> best_score (calls (EarlyStopping_init p ''max'' t) xs) \<noteq> NaN)"
proof (induction xs rule: rev_induct)
  case Nil
  show ?case by (simp add: calls_def EarlyStopping_init_def)
next
  case (snoc x xs)
  then show ?case
    using EarlyStopping_call_max(2,3)[of "calls (EarlyStopping_init p ''max'' t) xs" x]
          EarlyStopping_call_max_mono(2)[of "calls (EarlyStopping_init p ''max'' t) xs" x]
    by (simp add: calls_snoc)
qed

text \<open>
  C10 (amended): for an EarlyStopping instance with mode max and a threshold that is not
  negative, in every state reached by a sequence of calls a further call sets the best
  score to the new score if score - best_score > threshold holds and leaves it unchanged
  otherwise, and the best score after the call is not below the one before.
\<close>

theorem best_score_monotone:
  assumes "float_ge t (Finite 0)"
  shows "best_score (calls (EarlyStopping_init p ''max'' t) (scores @ [x])) =
           (if float_gt (float_sub x (best_score (calls (EarlyStopping_init p ''max'' t) scores))) t
            then x else best_score (calls (EarlyStopping_init p ''max'' t) scores)) \<and>
         float_ge (best_score (calls (EarlyStopping_init p ''max'' t) (scores @ [x])))
                  (best_score (calls (EarlyStopping_init p ''max'' t) scores))"
proof -
  let ?s = "calls (EarlyStopping_init p ''max'' t) scores"
  have inv: "mode ?s = ''max''" "threshold ?s = t" "best_score ?s \<noteq> NaN"
    using calls_max_inv[of p t scores] assms by simp_all
  have "best_score (snd (EarlyStopping_call ?s x)) =
          (if float_gt (float_sub x (best_score ?s)) t then x else best_score ?s)"
    using EarlyStopping_call_max(1)[OF inv(1), of x] inv(2) by simp
  moreover have "float_ge (best_score (snd (EarlyStopping_call ?s x))) (best_score ?s)"
    using EarlyStopping_call_max_mono(1)[OF inv(1) _ inv(3), of x] inv(2) assms by simp
  ultimately show ?thesis by (simp add: calls_snoc)
qed

theorem best_score_monotone_witness:
  "float_ge (Finite (1 / 10000)) (Finite 0) \<and>
   best_score (calls (EarlyStopping_init 5 ''max'' (Finite (1 / 10000))) ([Finite 5] @ [Finite 4])) =
     (if float_gt (float_sub (Finite 4) (best_score (calls (EarlyStopping_init 5 ''max'' (Finite (1 / 10000))) [Finite 5])))
                  (Finite (1 / 10000))
      then Finite 4 else best_score (calls (EarlyStopping_init 5 ''max'' (Finite (1 / 10000))) [Finite 5])) \<and>
   float_ge (best_score (calls (EarlyStopping_init 5 ''max'' (Finite (1 / 10000))) ([Finite 5] @ [Finite 4])))
            (best_score (calls (EarlyStopping_init 5 ''max'' (Finite (1 / 10000))) [Finite 5])) \<and>
   best_score (calls (EarlyStopping_init 5 ''max'' (Finite (1 / 10000))) [Finite 5]) = Finite 5"
proof -
  have h: "float_ge (Finite (1 / 10000)) (Finite 0)" by (simp add: float_ge_def)
  have v: "best_score (calls (EarlyStopping_init 5 ''max'' (Finite (1 / 10000))) [Finite 5]) = Finite 5"
    by (simp add: calls_def EarlyStopping_init_def EarlyStopping_call_def better_score_def)
  from best_score_monotone[OF h, of 5 "[Finite 5]" "Finite 4"] h v
  show ?thesis by blast
qed

end
